theory Spec2Isabelle
  imports Main "HOL-Library.AList" "HOL-Library.List_Lexorder" "HOL-Library.Char_ord"
begin

section \<open>Subscription store (\<open>subscribers.json\<close>)\<close>

text \<open>
  The persisted document is the JSON object
  \<^verbatim>\<open>{"chat_ids": [...], "users": {...}, "offer_subs": {...}}\<close>.
  A Python \<^verbatim>\<open>dict\<close> keeps its keys in insertion order, so every dictionary of the
  document is an association list: assignment to a key is \<open>AList.update\<close> (an existing
  key keeps its position, a new key goes last), \<^verbatim>\<open>pop\<close> is \<open>AList.delete\<close>.
  The outer keys \<^verbatim>\<open>str(chat_id)\<close> are written as the chat id itself
  (\<^verbatim>\<open>str\<close> is injective on integers and \<^verbatim>\<open>int(str(n)) == n\<close>).
  A key missing from the document and a key holding the empty dictionary are read
  alike by every function below (\<^verbatim>\<open>get(k, {})\<close>, \<^verbatim>\<open>setdefault(k, {})\<close>), so a missing
  top-level key is the empty list.
\<close>

record meta =
  title :: string
  pageSlug :: string
  notified :: bool

type_synonym user_subs = "(string \<times> meta) list"

record document =
  chat_ids :: "int list"
  users :: "(int \<times> (string \<times> string) list) list"
  offer_subs :: "(int \<times> user_subs) list"

text \<open>The file on disk: \<open>None\<close> when \<^verbatim>\<open>subscribers.json\<close> does not exist.\<close>

type_synonym store_file = "document option"

definition default_document :: document where
  "default_document = \<lparr>chat_ids = [], users = [], offer_subs = []\<rparr>"

definition load_json :: "store_file \<Rightarrow> document \<Rightarrow> document" where
  "load_json f dflt = (case f of None \<Rightarrow> dflt | Some d \<Rightarrow> d)"

definition save_json :: "document \<Rightarrow> store_file" where
  "save_json d = Some d"

definition ensure_files_exist :: "store_file \<Rightarrow> store_file" where
  "ensure_files_exist f = (case f of None \<Rightarrow> save_json default_document | Some d \<Rightarrow> Some d)"

text \<open>\<^verbatim>\<open>d.get(k, {})\<close> and the dictionary reached by \<^verbatim>\<open>d.setdefault(k, {})\<close>.\<close>

definition get_dict :: "('k \<times> ('a \<times> 'b) list) list \<Rightarrow> 'k \<Rightarrow> ('a \<times> 'b) list" where
  "get_dict d k = (case map_of d k of None \<Rightarrow> [] | Some v \<Rightarrow> v)"

definition is_subscribed_to_offer :: "int \<Rightarrow> string \<Rightarrow> store_file \<Rightarrow> bool \<times> store_file" where
  "is_subscribed_to_offer chat_id offer_id f =
     (let f1 = ensure_files_exist f;
          data = load_json f1 default_document;
          subs = get_dict (offer_subs data) chat_id
      in (offer_id \<in> set (map fst subs), f1))"

text \<open>\<^verbatim>\<open>page_slug or ""\<close> for an optional string.\<close>

definition or_empty :: "string option \<Rightarrow> string" where
  "or_empty s = (case s of None \<Rightarrow> [] | Some x \<Rightarrow> x)"

definition subscribe_to_offer :: "int \<Rightarrow> string \<Rightarrow> string \<Rightarrow> string option \<Rightarrow> store_file \<Rightarrow> store_file" where
  "subscribe_to_offer chat_id offer_id ttl page_slug f =
     (let f1 = ensure_files_exist f;
          data = load_json f1 default_document;
          user_subs = get_dict (offer_subs data) chat_id;
          user_subs' = AList.update offer_id
             \<lparr>title = ttl, pageSlug = or_empty page_slug, notified = False\<rparr> user_subs
      in save_json (data\<lparr>offer_subs := AList.update chat_id user_subs' (offer_subs data)\<rparr>))"

definition unsubscribe_from_offer :: "int \<Rightarrow> string \<Rightarrow> store_file \<Rightarrow> store_file" where
  "unsubscribe_from_offer chat_id offer_id f =
     (let f1 = ensure_files_exist f;
          data = load_json f1 default_document;
          user_subs = get_dict (offer_subs data) chat_id
      in if offer_id \<in> set (map fst user_subs)
         then save_json (data\<lparr>offer_subs :=
                AList.update chat_id (AList.delete offer_id user_subs) (offer_subs data)\<rparr>)
         else f1)"

text \<open>
  What the document holds for one user and one offer: every record stored under that
  pair, in document order, and the single record a lookup reads.
\<close>

definition records_of :: "store_file \<Rightarrow> int \<Rightarrow> string \<Rightarrow> meta list" where
  "records_of f chat_id offer_id =
     concat (map (\<lambda>(c, subs). if c = chat_id
                    then map snd (filter (\<lambda>(k, m). k = offer_id) subs) else [])
                 (offer_subs (load_json f default_document)))"

definition record_of :: "store_file \<Rightarrow> int \<Rightarrow> string \<Rightarrow> meta option" where
  "record_of f chat_id offer_id =
     map_of (get_dict (offer_subs (load_json f default_document)) chat_id) offer_id"

text \<open>A document as \<^verbatim>\<open>json.load\<close> produces it: no dictionary has a key twice.\<close>

definition wf_document :: "document \<Rightarrow> bool" where
  "wf_document d \<longleftrightarrow>
     distinct (map fst (offer_subs d)) \<and> list_all (\<lambda>(c, subs). distinct (map fst subs)) (offer_subs d)"

definition wf_file :: "store_file \<Rightarrow> bool" where
  "wf_file f \<longleftrightarrow> (case f of None \<Rightarrow> True | Some d \<Rightarrow> wf_document d)"

section \<open>Catalog elements and dates\<close>

text \<open>
  Errors of the Python code are values. \<open>UpstreamError\<close> stands for every failure of
  the HTTP request (\<^verbatim>\<open>raise_for_status\<close>, a timeout, a body that is not JSON);
  \<open>TypeError\<close> is what comparing a timezone-naive with a timezone-aware
  \<^verbatim>\<open>datetime\<close> raises; \<open>AttributeError\<close> is a method called on a value that has none
  of that name.
\<close>

datatype py_error = UpstreamError | TypeError | AttributeError

text \<open>
  A \<^verbatim>\<open>datetime\<close>: timezone-aware, with its instant (microseconds since the epoch, UTC)
  and its UTC offset (seconds), or naive, with its wall-clock reading. Instants of
  \<^verbatim>\<open>datetime.now(timezone.utc)\<close> are integers of microseconds.
  \<^verbatim>\<open>datetime.fromisoformat\<close> and \<^verbatim>\<open>isoformat\<close> belong to the Python library: they are
  parameters of the functions that call them, \<open>None\<close> meaning that the parser raised.
\<close>

datatype datetime = Naive int | Aware int int

type_synonym iso_parser = "string \<Rightarrow> datetime option"

text \<open>Order comparison of two datetimes (\<^verbatim>\<open>a < b\<close>, \<^verbatim>\<open>a <= b\<close>).\<close>

fun dt_less :: "datetime \<Rightarrow> datetime \<Rightarrow> py_error + bool" where
  "dt_less (Aware a _) (Aware b _) = Inr (a < b)"
| "dt_less (Naive a) (Naive b) = Inr (a < b)"
| "dt_less _ _ = Inl TypeError"

fun dt_le :: "datetime \<Rightarrow> datetime \<Rightarrow> py_error + bool" where
  "dt_le (Aware a _) (Aware b _) = Inr (a \<le> b)"
| "dt_le (Naive a) (Naive b) = Inr (a \<le> b)"
| "dt_le _ _ = Inl TypeError"

text \<open>\<^verbatim>\<open>datetime.now(timezone.utc)\<close> at the instant \<open>t\<close>.\<close>

definition utc_now :: "int \<Rightarrow> datetime" where
  "utc_now t = Aware t 0"

text \<open>
  One promotional window \<^verbatim>\<open>{"startDate": ..., "endDate": ...}\<close> (a key that is missing
  or \<^verbatim>\<open>null\<close> is \<open>None\<close>), one entry of \<^verbatim>\<open>catalogNs.mappings\<close> or \<^verbatim>\<open>offerMappings\<close>, and
  the fields of a catalog element that the bot reads. An outer offer is the list under
  its \<^verbatim>\<open>promotionalOffers\<close> key; \<open>upcomingStart\<close> is the key \<^verbatim>\<open>__upcomingStart\<close> that
  \<open>fetch_upcoming_games\<close> writes into the element.
\<close>

record promo_window =
  startDate :: "string option"
  endDate :: "string option"

record store_mapping =
  pageType :: "string option"
  mappingSlug :: "string option"

record element =
  el_title :: "string option"
  el_id :: "string option"
  el_items :: "string option list"
  promotionalOffers :: "promo_window list list"
  upcomingPromotionalOffers :: "promo_window list list"
  mappings :: "store_mapping list"
  offerMappings :: "store_mapping list"
  productSlug :: "string option"
  urlSlug :: "string option"
  upcomingStart :: "string option"

text \<open>Python truthiness of an optional string: present and not empty.\<close>

definition truthy :: "string option \<Rightarrow> bool" where
  "truthy s = (case s of None \<Rightarrow> False | Some x \<Rightarrow> x \<noteq> [])"

text \<open>\<^verbatim>\<open>s.replace("Z", "+00:00")\<close>: every occurrence is replaced.\<close>

definition replace_Z :: "string \<Rightarrow> string" where
  "replace_Z s = concat (map (\<lambda>c. if c = CHR ''Z'' then ''+00:00'' else [c]) s)"

text \<open>
  \<^verbatim>\<open>datetime.fromisoformat(s.replace("Z", "+00:00")) if s else None\<close>: the outer \<open>None\<close>
  is the exception of the parser.
\<close>

definition parse_date :: "iso_parser \<Rightarrow> string option \<Rightarrow> datetime option option" where
  "parse_date fromisoformat s =
     (case s of
        None \<Rightarrow> Some None
      | Some x \<Rightarrow>
          if x = [] then Some None
          else (case fromisoformat (replace_Z x) of None \<Rightarrow> None | Some d \<Rightarrow> Some (Some d)))"

section \<open>TTL cache\<close>

record cache_entry =
  at :: int
  items :: "element list"

type_synonym cache = "string \<rightharpoonup> cache_entry"

definition CACHE_TTL_SECONDS :: int where
  "CACHE_TTL_SECONDS = 600"

definition cache_key :: "string \<Rightarrow> string \<Rightarrow> string \<Rightarrow> string" where
  "cache_key locale country kind = locale @ ''|'' @ country @ ''|'' @ kind"

text \<open>
  \<^verbatim>\<open>(now - entry["at"]).total_seconds() > CACHE_TTL_SECONDS\<close>: \<^verbatim>\<open>total_seconds\<close> is the
  difference in microseconds divided by \<open>10\<^sup>6\<close>, correctly rounded to a float, and
  600 is a float itself, so the test is the comparison of the microseconds with
  \<open>600 * 10\<^sup>6\<close>. The clock reading \<open>now\<close> is an argument; the result is the value
  returned and the cache after the call.
\<close>

definition get_cached :: "int \<Rightarrow> string \<Rightarrow> string \<Rightarrow> string \<Rightarrow> cache \<Rightarrow> element list option \<times> cache" where
  "get_cached now locale country kind c =
     (let key = cache_key locale country kind in
      case c key of
        None \<Rightarrow> (None, c)
      | Some entry \<Rightarrow>
          if now - at entry > CACHE_TTL_SECONDS * 1000000
          then (None, c(key := None))
          else (Some (items entry), c))"

definition set_cached :: "int \<Rightarrow> string \<Rightarrow> string \<Rightarrow> string \<Rightarrow> element list \<Rightarrow> cache \<Rightarrow> cache" where
  "set_cached now locale country kind its c =
     c(cache_key locale country kind \<mapsto> \<lparr>at = now, items = its\<rparr>)"

section \<open>Catalog client: currently free offers\<close>

text \<open>
  Lines 145 to 152 of \<open>fetch_free_games\<close>: the two dates are parsed inside one
  \<^verbatim>\<open>try\<close>, so a failure of either parse leaves both bounds \<open>None\<close>; the test
  \<^verbatim>\<open>(start is None or start <= now) and (end is None or now < end)\<close> is outside the
  \<^verbatim>\<open>try\<close> and short-circuits from left to right.
\<close>

definition window_bounds :: "iso_parser \<Rightarrow> promo_window \<Rightarrow> datetime option \<times> datetime option" where
  "window_bounds fromisoformat po =
     (case parse_date fromisoformat (startDate po) of
        None \<Rightarrow> (None, None)
      | Some start \<Rightarrow>
          (case parse_date fromisoformat (endDate po) of
             None \<Rightarrow> (None, None)
           | Some end' \<Rightarrow> (start, end')))"

definition window_active :: "iso_parser \<Rightarrow> int \<Rightarrow> promo_window \<Rightarrow> py_error + bool" where
  "window_active fromisoformat now po =
     (case window_bounds fromisoformat po of (start, end') \<Rightarrow>
        (case (case start of None \<Rightarrow> Inr True | Some s \<Rightarrow> dt_le s (utc_now now)) of
           Inl e \<Rightarrow> Inl e
         | Inr False \<Rightarrow> Inr False
         | Inr True \<Rightarrow> (case end' of None \<Rightarrow> Inr True | Some e \<Rightarrow> dt_less (utc_now now) e)))"

text \<open>The inner loop over the windows of one offer, left at the first active window.\<close>

fun windows_loop :: "iso_parser \<Rightarrow> int \<Rightarrow> promo_window list \<Rightarrow> py_error + bool" where
  "windows_loop fromisoformat now [] = Inr False"
| "windows_loop fromisoformat now (po # pos) =
     (case window_active fromisoformat now po of
        Inl e \<Rightarrow> Inl e
      | Inr True \<Rightarrow> Inr True
      | Inr False \<Rightarrow> windows_loop fromisoformat now pos)"

text \<open>The loop over the offers of one element, left as soon as \<^verbatim>\<open>is_active\<close> is set.\<close>

fun offers_loop :: "iso_parser \<Rightarrow> int \<Rightarrow> promo_window list list \<Rightarrow> py_error + bool" where
  "offers_loop fromisoformat now [] = Inr False"
| "offers_loop fromisoformat now (offer # offers) =
     (case windows_loop fromisoformat now offer of
        Inl e \<Rightarrow> Inl e
      | Inr True \<Rightarrow> Inr True
      | Inr False \<Rightarrow> offers_loop fromisoformat now offers)"

text \<open>The loop over the elements, with the list \<^verbatim>\<open>free_now\<close> built so far.\<close>

fun free_loop :: "iso_parser \<Rightarrow> int \<Rightarrow> element list \<Rightarrow> element list \<Rightarrow> py_error + element list" where
  "free_loop fromisoformat now [] free_now = Inr free_now"
| "free_loop fromisoformat now (el # els) free_now =
     (if promotionalOffers el = [] then free_loop fromisoformat now els free_now
      else (case offers_loop fromisoformat now (promotionalOffers el) of
              Inl e \<Rightarrow> Inl e
            | Inr False \<Rightarrow> free_loop fromisoformat now els free_now
            | Inr True \<Rightarrow> free_loop fromisoformat now els (free_now @ [el])))"

text \<open>
  What one call meets outside the program: the clock readings of \<open>get_cached\<close>, of
  the classification (\<^verbatim>\<open>now\<close>) and of \<open>set_cached\<close>, and the answer of the upstream
  endpoint, should the call ask it: the list at \<^verbatim>\<open>data.Catalog.searchStore.elements\<close>, or
  an error. The state is the cache and the number of upstream requests issued so far.
\<close>

record call_env =
  t_lookup :: int
  upstream :: "py_error + element list"
  t_classify :: int
  t_store :: int

record fetch_state =
  the_cache :: cache
  upstream_calls :: nat

definition fetch_free_games ::
  "iso_parser \<Rightarrow> call_env \<Rightarrow> string \<Rightarrow> string \<Rightarrow> fetch_state \<Rightarrow> (py_error + element list) \<times> fetch_state" where
  "fetch_free_games fromisoformat env locale country st =
     (case get_cached (t_lookup env) locale country ''current'' (the_cache st) of
        (Some cached, c1) \<Rightarrow> (Inr cached, st\<lparr>the_cache := c1\<rparr>)
      | (None, c1) \<Rightarrow>
          (let st1 = st\<lparr>the_cache := c1, upstream_calls := Suc (upstream_calls st)\<rparr> in
           case upstream env of
             Inl e \<Rightarrow> (Inl e, st1)
           | Inr elements \<Rightarrow>
               (case free_loop fromisoformat (t_classify env) elements [] of
                  Inl e \<Rightarrow> (Inl e, st1)
                | Inr free_now \<Rightarrow>
                    (Inr free_now,
                     st1\<lparr>the_cache := set_cached (t_store env) locale country ''current'' free_now c1\<rparr>))))"

section \<open>Catalog client: upcoming offers\<close>

text \<open>
  Lines 197 to 201 of \<open>fetch_upcoming_games\<close>: only the start date is parsed, and a
  parse that raises leaves \<^verbatim>\<open>start = None\<close>.
\<close>

definition upcoming_start :: "iso_parser \<Rightarrow> promo_window \<Rightarrow> datetime option" where
  "upcoming_start fromisoformat po =
     (case parse_date fromisoformat (startDate po) of None \<Rightarrow> None | Some start \<Rightarrow> start)"

text \<open>
  Lines 202 to 205, on the pair \<^verbatim>\<open>(is_future, starts_at)\<close>: \<^verbatim>\<open>start > now\<close> and
  \<^verbatim>\<open>start < starts_at\<close> are datetime comparisons (a \<^verbatim>\<open>datetime\<close> is always truthy).
\<close>

definition upcoming_step ::
  "iso_parser \<Rightarrow> int \<Rightarrow> promo_window \<Rightarrow> bool \<times> datetime option \<Rightarrow> py_error + (bool \<times> datetime option)" where
  "upcoming_step fromisoformat now po acc =
     (case acc of (is_future, starts_at) \<Rightarrow>
        (case upcoming_start fromisoformat po of
           None \<Rightarrow> Inr (is_future, starts_at)
         | Some start \<Rightarrow>
             (case dt_less (utc_now now) start of
                Inl e \<Rightarrow> Inl e
              | Inr False \<Rightarrow> Inr (is_future, starts_at)
              | Inr True \<Rightarrow>
                  (case starts_at of
                     None \<Rightarrow> Inr (True, Some start)
                   | Some sa \<Rightarrow>
                       (case dt_less start sa of
                          Inl e \<Rightarrow> Inl e
                        | Inr True \<Rightarrow> Inr (True, Some start)
                        | Inr False \<Rightarrow> Inr (True, Some sa))))))"

fun up_windows_loop ::
  "iso_parser \<Rightarrow> int \<Rightarrow> promo_window list \<Rightarrow> bool \<times> datetime option \<Rightarrow> py_error + (bool \<times> datetime option)" where
  "up_windows_loop fromisoformat now [] acc = Inr acc"
| "up_windows_loop fromisoformat now (po # pos) acc =
     (case upcoming_step fromisoformat now po acc of
        Inl e \<Rightarrow> Inl e
      | Inr acc' \<Rightarrow> up_windows_loop fromisoformat now pos acc')"

fun up_offers_loop ::
  "iso_parser \<Rightarrow> int \<Rightarrow> promo_window list list \<Rightarrow> bool \<times> datetime option \<Rightarrow> py_error + (bool \<times> datetime option)" where
  "up_offers_loop fromisoformat now [] acc = Inr acc"
| "up_offers_loop fromisoformat now (offer # offers) acc =
     (case up_windows_loop fromisoformat now offer acc of
        Inl e \<Rightarrow> Inl e
      | Inr acc' \<Rightarrow> up_offers_loop fromisoformat now offers acc')"

text \<open>
  The loop over the elements with the list \<^verbatim>\<open>upcoming\<close> built so far. Line 207 stores
  \<^verbatim>\<open>starts_at.isoformat() if starts_at else None\<close> under \<^verbatim>\<open>__upcomingStart\<close>.
\<close>

fun upcoming_loop ::
  "iso_parser \<Rightarrow> (datetime \<Rightarrow> string) \<Rightarrow> int \<Rightarrow> element list \<Rightarrow> element list \<Rightarrow> py_error + element list" where
  "upcoming_loop fromisoformat isoformat now [] upcoming = Inr upcoming"
| "upcoming_loop fromisoformat isoformat now (el # els) upcoming =
     (if upcomingPromotionalOffers el = [] then upcoming_loop fromisoformat isoformat now els upcoming
      else (case up_offers_loop fromisoformat now (upcomingPromotionalOffers el) (False, None) of
              Inl e \<Rightarrow> Inl e
            | Inr (is_future, starts_at) \<Rightarrow>
                if is_future
                then upcoming_loop fromisoformat isoformat now els
                       (upcoming @ [el\<lparr>upcomingStart := map_option isoformat starts_at\<rparr>])
                else upcoming_loop fromisoformat isoformat now els upcoming))"

text \<open>
  The sort key of line 211, \<^verbatim>\<open>e.get("__upcomingStart") or ""\<close>. Python compares strings
  by code point, lexicographically, which is the order of \<open>char list\<close>; \<^verbatim>\<open>list.sort\<close> is
  stable, as \<open>sort_key\<close> is, and a stable sort has one result only.
\<close>

definition upcoming_key :: "element \<Rightarrow> string" where
  "upcoming_key e = or_empty (upcomingStart e)"

definition fetch_upcoming_games ::
  "iso_parser \<Rightarrow> (datetime \<Rightarrow> string) \<Rightarrow> call_env \<Rightarrow> string \<Rightarrow> string \<Rightarrow> fetch_state
     \<Rightarrow> (py_error + element list) \<times> fetch_state" where
  "fetch_upcoming_games fromisoformat isoformat env locale country st =
     (case get_cached (t_lookup env) locale country ''upcoming'' (the_cache st) of
        (Some cached, c1) \<Rightarrow> (Inr cached, st\<lparr>the_cache := c1\<rparr>)
      | (None, c1) \<Rightarrow>
          (let st1 = st\<lparr>the_cache := c1, upstream_calls := Suc (upstream_calls st)\<rparr> in
           case upstream env of
             Inl e \<Rightarrow> (Inl e, st1)
           | Inr elements \<Rightarrow>
               (case upcoming_loop fromisoformat isoformat (t_classify env) elements [] of
                  Inl e \<Rightarrow> (Inl e, st1)
                | Inr upcoming \<Rightarrow>
                    (let sorted_upcoming = sort_key upcoming_key upcoming in
                     (Inr sorted_upcoming,
                      st1\<lparr>the_cache :=
                            set_cached (t_store env) locale country ''upcoming'' sorted_upcoming c1\<rparr>)))))"

section \<open>The window test on the bounds that the code keeps\<close>

text \<open>
  The test of line 152 as a predicate on the bounds that \<open>window_bounds\<close> leaves: the
  start is absent or not after \<open>now\<close> and the end is absent or after \<open>now\<close>; an element is
  active when one window of one of its offers is. A naive bound has no instant;
  \<open>aware_windows\<close> says that an element has none, as is the case for the upstream's
  dates, which end in \<^verbatim>\<open>Z\<close>. Then no comparison raises.
\<close>

fun starts_by :: "int \<Rightarrow> datetime option \<Rightarrow> bool" where
  "starts_by now None = True"
| "starts_by now (Some (Aware i off)) = (i \<le> now)"
| "starts_by now (Some (Naive w)) = False"

fun ends_after :: "int \<Rightarrow> datetime option \<Rightarrow> bool" where
  "ends_after now None = True"
| "ends_after now (Some (Aware i off)) = (now < i)"
| "ends_after now (Some (Naive w)) = False"

definition active_window :: "iso_parser \<Rightarrow> int \<Rightarrow> promo_window \<Rightarrow> bool" where
  "active_window fromisoformat now po =
     (starts_by now (fst (window_bounds fromisoformat po)) \<and>
      ends_after now (snd (window_bounds fromisoformat po)))"

definition has_active_window :: "iso_parser \<Rightarrow> int \<Rightarrow> element \<Rightarrow> bool" where
  "has_active_window fromisoformat now el =
     list_ex (list_ex (active_window fromisoformat now)) (promotionalOffers el)"

fun tz_aware :: "datetime option \<Rightarrow> bool" where
  "tz_aware None = True"
| "tz_aware (Some (Aware i off)) = True"
| "tz_aware (Some (Naive w)) = False"

definition aware_window :: "iso_parser \<Rightarrow> promo_window \<Rightarrow> bool" where
  "aware_window fromisoformat po =
     (tz_aware (fst (window_bounds fromisoformat po)) \<and>
      tz_aware (snd (window_bounds fromisoformat po)))"

definition aware_windows :: "iso_parser \<Rightarrow> element \<Rightarrow> bool" where
  "aware_windows fromisoformat el =
     list_all (list_all (aware_window fromisoformat)) (promotionalOffers el)"

text \<open>A date of the window is there and \<^verbatim>\<open>fromisoformat\<close> raises on it.\<close>

definition parse_fails :: "iso_parser \<Rightarrow> promo_window \<Rightarrow> bool" where
  "parse_fails fromisoformat po =
     (parse_date fromisoformat (startDate po) = None \<or>
      parse_date fromisoformat (endDate po) = None)"

section \<open>What the specification says of an upcoming offer\<close>

text \<open>
  \<open>soonestStart\<close> of the specification: the least of the strictly future start
  instants among all upcoming windows of an element, \<open>None\<close> when there is none.
\<close>

definition future_starts :: "iso_parser \<Rightarrow> int \<Rightarrow> element \<Rightarrow> int list" where
  "future_starts fromisoformat now el =
     concat (map (\<lambda>po. case upcoming_start fromisoformat po of
                          Some (Aware i off) \<Rightarrow> if now < i then [i] else []
                        | _ \<Rightarrow> [])
                 (concat (upcomingPromotionalOffers el)))"

definition soonest_start :: "iso_parser \<Rightarrow> int \<Rightarrow> element \<Rightarrow> int option" where
  "soonest_start fromisoformat now el =
     (case future_starts fromisoformat now el of [] \<Rightarrow> None | i # is \<Rightarrow> Some (fold min is i))"

section \<open>Offer classifier: store URL and offer id\<close>

text \<open>
  A character of a string is a code point below 256 (text beyond Latin-1 is outside the
  model). On these, \<^verbatim>\<open>str.lower\<close> adds 32 to the code points \<^verbatim>\<open>A\<close> to \<^verbatim>\<open>Z\<close> and to
  \<open>0xC0\<close> to \<open>0xDE\<close> except \<open>0xD7\<close> (the multiplication sign) and leaves the others;
  \<^verbatim>\<open>lstrip("/")\<close> drops every leading slash, \<^verbatim>\<open>startswith\<close> compares a prefix.
\<close>

definition lower_char :: "char \<Rightarrow> char" where
  "lower_char c =
     (if (CHR ''A'' \<le> c \<and> c \<le> CHR ''Z'') \<or> (CHR 0xC0 \<le> c \<and> c \<le> CHR 0xDE \<and> c \<noteq> CHR 0xD7)
      then char_of (of_char c + (32::nat)) else c)"

definition lower :: "string \<Rightarrow> string" where
  "lower s = map lower_char s"

definition lstrip_slash :: "string \<Rightarrow> string" where
  "lstrip_slash s = dropWhile (\<lambda>c. c = CHR ''/'') s"

definition startswith :: "string \<Rightarrow> string \<Rightarrow> bool" where
  "startswith s p = (take (length p) s = p)"

definition path_qualified :: "string \<Rightarrow> bool" where
  "path_qualified s = (startswith s ''p/'' \<or> startswith s ''bundles/'' \<or> startswith s ''store/'')"

definition slug_to_url :: "string \<Rightarrow> string option \<Rightarrow> string" where
  "slug_to_url locale slug =
     (let slug' = lstrip_slash (or_empty slug) in
      if path_qualified slug'
      then ''https://store.epicgames.com/'' @ locale @ ''/'' @ slug'
      else ''https://store.epicgames.com/'' @ locale @ ''/p/'' @ slug')"

text \<open>The three loops of \<open>build_store_url\<close>, each returning at its first match.\<close>

definition is_producthome :: "store_mapping \<Rightarrow> bool" where
  "is_producthome m = (lower (or_empty (pageType m)) = ''producthome'' \<and> truthy (mappingSlug m))"

fun first_producthome :: "store_mapping list \<Rightarrow> string option option" where
  "first_producthome [] = None"
| "first_producthome (m # ms) =
     (if is_producthome m then Some (mappingSlug m) else first_producthome ms)"

fun first_slug :: "store_mapping list \<Rightarrow> string option option" where
  "first_slug [] = None"
| "first_slug (m # ms) = (if truthy (mappingSlug m) then Some (mappingSlug m) else first_slug ms)"

definition build_store_url :: "element \<Rightarrow> string \<Rightarrow> string" where
  "build_store_url el locale =
     (case first_producthome (mappings el) of
        Some slug \<Rightarrow> slug_to_url locale slug
      | None \<Rightarrow>
          (case first_slug (mappings el) of
             Some slug \<Rightarrow> slug_to_url locale slug
           | None \<Rightarrow>
               (case first_slug (offerMappings el) of
                  Some slug \<Rightarrow> slug_to_url locale slug
                | None \<Rightarrow>
                    if truthy (productSlug el) then slug_to_url locale (productSlug el)
                    else if truthy (urlSlug el) then slug_to_url locale (urlSlug el)
                    else ''https://store.epicgames.com/'')))"

text \<open>
  \<open>get_offer_id\<close>: the element's own id when truthy, else the id of its first item
  (\<open>el_items\<close> lists the \<^verbatim>\<open>id\<close> of each item).
\<close>

definition get_offer_id :: "element \<Rightarrow> string option" where
  "get_offer_id el =
     (if truthy (el_id el) then el_id el
      else (case el_items el of
              [] \<Rightarrow> None
            | iid # rest \<Rightarrow> if truthy iid then iid else None))"

section \<open>Notification scheduler\<close>

text \<open>
  What one run of \<open>daily_job\<close> meets outside the program: for each chat, what
  \<open>fetch_free_games\<close> gives for that chat's locale and country (an error is caught and
  replaced by the empty list), and whether \<^verbatim>\<open>send_message\<close> succeeds for the
  notification of one subscription (chat, offer id, text).
\<close>

record tick_env =
  current_free :: "int \<Rightarrow> py_error + element list"
  delivered :: "int \<Rightarrow> string \<Rightarrow> string \<Rightarrow> bool"

definition notify_text :: "string \<Rightarrow> meta \<Rightarrow> string" where
  "notify_text oid m =
     ''Now free: '' @ (if title m \<noteq> [] then title m else oid) @ [CHR 0x0A] @
     (if pageSlug m \<noteq> [] then ''https://store.epicgames.com/en-US/p/'' @ pageSlug m
      else ''https://store.epicgames.com/'')"

text \<open>
  Lines 785 to 789: the ids of the free offers. Lines 794 to 803: the loop over the
  user's subscriptions, giving the subscriptions after the loop, \<^verbatim>\<open>any_sent\<close>, and the
  calls of \<^verbatim>\<open>send_message\<close> at line 799 that the loop made, in order: the offer id of the
  subscription, the text, and whether the call succeeded. A send that raises is
  swallowed and leaves the record as it is.
\<close>

definition free_ids_of :: "element list \<Rightarrow> string list" where
  "free_ids_of current = List.map_filter get_offer_id current"

fun notify_loop ::
  "(string \<Rightarrow> string \<Rightarrow> bool) \<Rightarrow> string list \<Rightarrow> user_subs \<Rightarrow> bool
     \<Rightarrow> user_subs \<times> bool \<times> (string \<times> string \<times> bool) list" where
  "notify_loop send free_ids [] any_sent = ([], any_sent, [])"
| "notify_loop send free_ids ((oid, m) # rest) any_sent =
     (if free_ids \<noteq> [] \<and> oid \<in> set free_ids \<and> \<not> notified m
      then (if send oid (notify_text oid m)
            then (case notify_loop send free_ids rest True of
                    (rest', sent, calls) \<Rightarrow>
                      ((oid, m\<lparr>notified := True\<rparr>) # rest', sent,
                       (oid, notify_text oid m, True) # calls))
            else (case notify_loop send free_ids rest any_sent of
                    (rest', sent, calls) \<Rightarrow>
                      ((oid, m) # rest', sent, (oid, notify_text oid m, False) # calls)))
      else (case notify_loop send free_ids rest any_sent of
              (rest', sent, calls) \<Rightarrow> ((oid, m) # rest', sent, calls)))"

text \<open>
  The log of a run: every notification call made, as chat id, offer id, text and
  success.
\<close>

type_synonym send_log = "(int \<times> string \<times> string \<times> bool) list"

text \<open>
  The body of the loop over \<^verbatim>\<open>chat_ids_to_process\<close> for one chat, on the file and the
  log so far: \<open>snapshot\<close> is the dictionary \<^verbatim>\<open>offer_subs\<close> read once at the start of the
  run, whose records the loop updates in place; the file is read again and written
  only when something was sent.
\<close>

definition process_chat ::
  "tick_env \<Rightarrow> (int \<times> user_subs) list \<Rightarrow> int \<Rightarrow> store_file \<times> send_log \<Rightarrow> store_file \<times> send_log" where
  "process_chat env snapshot chat_id st =
     (let current = (case current_free env chat_id of Inl e \<Rightarrow> [] | Inr els \<Rightarrow> els);
          free_ids = free_ids_of current;
          user_offer_subs = get_dict snapshot chat_id
      in case notify_loop (delivered env chat_id) free_ids user_offer_subs False of
           (user_offer_subs', any_sent, calls) \<Rightarrow>
             ((if any_sent
               then (let data = load_json (fst st) default_document
                     in save_json (data\<lparr>offer_subs :=
                          AList.update chat_id user_offer_subs' (offer_subs data)\<rparr>))
               else fst st),
              snd st @ map (\<lambda>(oid, text, ok). (chat_id, oid, text, ok)) calls))"

text \<open>
  \<open>daily_job\<close> up to line 808, giving the file after the run and the log of the run.
  \<^verbatim>\<open>chat_ids_to_process\<close> is a set: each chat is processed once, here in the order of the
  two lists it is built from. The digest that follows (lines 811 to 816) sends the list
  of free games to the chats of \<^verbatim>\<open>chat_ids\<close>; it sends no notification of a subscription
  and does not write the file.
\<close>

definition daily_job :: "tick_env \<Rightarrow> store_file \<Rightarrow> store_file \<times> send_log" where
  "daily_job env f =
     (let f1 = ensure_files_exist f;
          store = load_json f1 default_document;
          subs = chat_ids store;
          snapshot = offer_subs (load_json f1 default_document);
          chat_ids_to_process = remdups (subs @ map fst snapshot)
      in fold (process_chat env snapshot) chat_ids_to_process (f1, []))"

text \<open>
  A sequence of runs, one after the other on the file the previous one left, with the
  logs of the runs in order; the free offer ids that a run sees for one chat; and the
  calls of a log that notify one subscription.
\<close>

fun run_jobs :: "tick_env list \<Rightarrow> store_file \<Rightarrow> store_file \<times> send_log" where
  "run_jobs [] f = (f, [])"
| "run_jobs (env # envs) f =
     (case daily_job env f of
        (f1, log1) \<Rightarrow> (case run_jobs envs f1 of (f2, log2) \<Rightarrow> (f2, log1 @ log2)))"

definition tick_free_ids :: "tick_env \<Rightarrow> int \<Rightarrow> string list" where
  "tick_free_ids env chat_id =
     free_ids_of (case current_free env chat_id of Inl e \<Rightarrow> [] | Inr els \<Rightarrow> els)"

definition sends_for :: "int \<Rightarrow> string \<Rightarrow> send_log \<Rightarrow> send_log" where
  "sends_for chat_id offer_id log =
     filter (\<lambda>(c, oid, text, ok). c = chat_id \<and> oid = offer_id) log"

section \<open>Media resolver\<close>

text \<open>
  A parsed JSON document. A number is kept as an integer: the code only tests whether
  it is zero. An object is its list of members in document order, without repeated
  keys (\<^verbatim>\<open>json.load\<close> keeps one value for a key). \<open>py_truthy\<close> is Python's truth value.
\<close>

datatype json =
  JNull | JBool bool | JNum int | JStr string | JArr "json list" | JObj "(string \<times> json) list"

fun py_truthy :: "json \<Rightarrow> bool" where
  "py_truthy JNull = False"
| "py_truthy (JBool b) = b"
| "py_truthy (JNum n) = (n \<noteq> 0)"
| "py_truthy (JStr s) = (s \<noteq> [])"
| "py_truthy (JArr xs) = (xs \<noteq> [])"
| "py_truthy (JObj kvs) = (kvs \<noteq> [])"

text \<open>\<^verbatim>\<open>a or b\<close> on optional strings, and \<^verbatim>\<open>a or b\<close> on the values of \<^verbatim>\<open>dict.get\<close>.\<close>

definition py_or :: "string option \<Rightarrow> string option \<Rightarrow> string option" where
  "py_or a b = (if truthy a then a else b)"

definition get_or :: "json option \<Rightarrow> json option \<Rightarrow> json option" where
  "get_or a b = (case a of Some v \<Rightarrow> if py_truthy v then a else b | None \<Rightarrow> b)"

text \<open>
  \<^verbatim>\<open>str.strip()\<close>, \<^verbatim>\<open>str.endswith\<close> and the substring test \<^verbatim>\<open>sub in s\<close>. \<^verbatim>\<open>strip()\<close>
  removes the characters that \<^verbatim>\<open>str.isspace\<close> accepts; below 256 these are the code
  points \<open>0x09\<close> to \<open>0x0D\<close>, \<open>0x1C\<close> to \<open>0x20\<close>, \<open>0x85\<close> (next line) and \<open>0xA0\<close> (no-break
  space).
\<close>

definition is_space :: "char \<Rightarrow> bool" where
  "is_space c = (c \<in> set [CHR 0x09, CHR 0x0A, CHR 0x0B, CHR 0x0C, CHR 0x0D,
                           CHR 0x1C, CHR 0x1D, CHR 0x1E, CHR 0x1F, CHR 0x20,
                           CHR 0x85, CHR 0xA0])"

definition strip :: "string \<Rightarrow> string" where
  "strip s = rev (dropWhile is_space (rev (dropWhile is_space s)))"

definition endswith :: "string \<Rightarrow> string \<Rightarrow> bool" where
  "endswith s suffix = (length suffix \<le> length s \<and> drop (length s - length suffix) s = suffix)"

fun contains :: "string \<Rightarrow> string \<Rightarrow> bool" where
  "contains [] sub = (sub = [])"
| "contains (c # cs) sub = (startswith (c # cs) sub \<or> contains cs sub)"

definition is_video :: "string \<Rightarrow> bool" where
  "is_video low = (endswith low ''.mp4'' \<or> endswith low ''.webm'' \<or> endswith low ''.mov'' \<or>
                   contains low ''.mp4'')"

definition is_youtube :: "string \<Rightarrow> bool" where
  "is_youtube low = (contains low ''youtube.com'' \<or> contains low ''youtu.be'')"

text \<open>The pair \<^verbatim>\<open>(direct, yt)\<close> that \<open>scan_modules\<close> fills.\<close>

type_synonym found = "string option \<times> string option"

text \<open>
  The nested function \<^verbatim>\<open>consider\<close> (lines 510 to 517). \<^verbatim>\<open>(value or "").strip()\<close> raises \<open>AttributeError\<close> on
  a truthy value that is not a string.
\<close>

definition consider_value :: "json \<Rightarrow> found \<Rightarrow> py_error + found" where
  "consider_value val acc =
     (if py_truthy val \<and> (case val of JStr s \<Rightarrow> False | _ \<Rightarrow> True) then Inl AttributeError
      else (let v = strip (case val of JStr s \<Rightarrow> s | _ \<Rightarrow> []);
                low = lower v;
                direct = (if is_video low \<and> \<not> truthy (fst acc) then Some v else fst acc);
                yt = (if is_youtube low \<and> \<not> truthy (snd acc) then Some v else snd acc)
            in Inr (direct, yt)))"

text \<open>
  \<open>pick_from_sources\<close> (lines 494 to 504): \<open>None\<close> stands for a missing key.
  \<^verbatim>\<open>(src or {}).get(...)\<close> raises \<open>AttributeError\<close> on a truthy \<^verbatim>\<open>src\<close> that is not an
  object.
\<close>

fun sources_loop :: "json list \<Rightarrow> py_error + string option" where
  "sources_loop [] = Inr None"
| "sources_loop (src # rest) =
     (if \<not> py_truthy src then sources_loop rest
      else (case src of
              JObj kvs \<Rightarrow>
                (case get_or (map_of kvs ''src'') (map_of kvs ''url'') of
                   Some (JStr url) \<Rightarrow>
                     if is_video (lower url) then Inr (Some url) else sources_loop rest
                 | _ \<Rightarrow> sources_loop rest)
            | _ \<Rightarrow> Inl AttributeError))"

definition pick_from_sources :: "json option \<Rightarrow> py_error + string option" where
  "pick_from_sources sources =
     (case sources of Some (JArr srcs) \<Rightarrow> sources_loop srcs | _ \<Rightarrow> Inr None)"

text \<open>
  The hints that \<open>scan_modules\<close> reads from an object before it recurses (lines 521
  to 535), each as a step on the pair found so far. \<open>render\<close> is Python's \<^verbatim>\<open>str()\<close> of a
  value that is not a string, which the f-string of line 522 applies to the \<^verbatim>\<open>id\<close>.
\<close>

definition py_str :: "(json \<Rightarrow> string) \<Rightarrow> json \<Rightarrow> string" where
  "py_str render v = (case v of JStr s \<Rightarrow> s | _ \<Rightarrow> render v)"

definition hint_provider :: "(json \<Rightarrow> string) \<Rightarrow> (string \<times> json) list \<Rightarrow> found \<Rightarrow> found" where
  "hint_provider render obj acc =
     (case map_of obj ''id'' of
        Some v \<Rightarrow>
          if map_of obj ''provider'' = Some (JStr ''youtube'') \<and> py_truthy v \<and> \<not> truthy (snd acc)
          then (fst acc, Some (''https://youtu.be/'' @ py_str render v))
          else acc
      | None \<Rightarrow> acc)"

definition hint_youtube_field :: "string \<Rightarrow> (string \<times> json) list \<Rightarrow> found \<Rightarrow> py_error + found" where
  "hint_youtube_field key obj acc =
     (case map_of obj key of
        Some v \<Rightarrow> if py_truthy v \<and> \<not> truthy (snd acc) then consider_value v acc else Inr acc
      | None \<Rightarrow> Inr acc)"

definition hint_video_field :: "(string \<times> json) list \<Rightarrow> found \<Rightarrow> py_error + found" where
  "hint_video_field obj acc =
     (case map_of obj ''videoUrl'' of
        Some v \<Rightarrow> if py_truthy v \<and> \<not> truthy (fst acc) then consider_value v acc else Inr acc
      | None \<Rightarrow> Inr acc)"

definition hint_video_sources :: "(string \<times> json) list \<Rightarrow> found \<Rightarrow> py_error + found" where
  "hint_video_sources obj acc =
     (case map_of obj ''video'' of
        Some (JObj video) \<Rightarrow>
          (case pick_from_sources (map_of video ''sources'') of
             Inl e \<Rightarrow> Inl e
           | Inr cand \<Rightarrow> Inr (py_or (fst acc) cand, snd acc))
      | _ \<Rightarrow> Inr acc)"

definition hint_sources :: "(string \<times> json) list \<Rightarrow> found \<Rightarrow> py_error + found" where
  "hint_sources obj acc =
     (case map_of obj ''sources'' of
        Some v \<Rightarrow>
          (case pick_from_sources (Some v) of
             Inl e \<Rightarrow> Inl e
           | Inr cand \<Rightarrow> Inr (py_or (fst acc) cand, snd acc))
      | None \<Rightarrow> Inr acc)"

definition then_step :: "py_error + 'a \<Rightarrow> ('a \<Rightarrow> py_error + 'b) \<Rightarrow> py_error + 'b" where
  "then_step r f = (case r of Inl e \<Rightarrow> Inl e | Inr x \<Rightarrow> f x)"

definition object_hints :: "(json \<Rightarrow> string) \<Rightarrow> (string \<times> json) list \<Rightarrow> py_error + found" where
  "object_hints render obj =
     then_step (then_step (then_step (then_step
       (hint_youtube_field ''youTubeUrl'' obj (hint_provider render obj (None, None)))
       (hint_youtube_field ''youtubeUrl'' obj))
       (hint_video_field obj))
       (hint_video_sources obj))
       (hint_sources obj)"

text \<open>
  \<open>scan_modules\<close> (lines 506 to 549), with the two loops that recurse: over the values
  of an object (only objects and arrays are entered) and over the items of an array.
  Each result of a recursive call is merged with \<^verbatim>\<open>direct or d\<close>, \<^verbatim>\<open>yt or y\<close>.
\<close>

fun scan_modules :: "(json \<Rightarrow> string) \<Rightarrow> json \<Rightarrow> py_error + found"
  and scan_values :: "(json \<Rightarrow> string) \<Rightarrow> (string \<times> json) list \<Rightarrow> found \<Rightarrow> py_error + found"
  and scan_items :: "(json \<Rightarrow> string) \<Rightarrow> json list \<Rightarrow> found \<Rightarrow> py_error + found" where
  "scan_modules render (JObj kvs) =
     (case object_hints render kvs of
        Inl e \<Rightarrow> Inl e
      | Inr acc \<Rightarrow> scan_values render kvs acc)"
| "scan_modules render (JArr xs) = scan_items render xs (None, None)"
| "scan_modules render (JStr s) = consider_value (JStr s) (None, None)"
| "scan_modules render JNull = Inr (None, None)"
| "scan_modules render (JBool b) = Inr (None, None)"
| "scan_modules render (JNum n) = Inr (None, None)"
| "scan_values render [] acc = Inr acc"
| "scan_values render ((k, JObj kvs) # rest) acc =
     (case scan_modules render (JObj kvs) of
        Inl e \<Rightarrow> Inl e
      | Inr (d, y) \<Rightarrow> scan_values render rest (py_or (fst acc) d, py_or (snd acc) y))"
| "scan_values render ((k, JArr xs) # rest) acc =
     (case scan_modules render (JArr xs) of
        Inl e \<Rightarrow> Inl e
      | Inr (d, y) \<Rightarrow> scan_values render rest (py_or (fst acc) d, py_or (snd acc) y))"
| "scan_values render ((k, v) # rest) acc = scan_values render rest acc"
| "scan_items render [] acc = Inr acc"
| "scan_items render (x # xs) acc =
     (case scan_modules render x of
        Inl e \<Rightarrow> Inl e
      | Inr (d, y) \<Rightarrow> scan_items render xs (py_or (fst acc) d, py_or (snd acc) y))"

text \<open>
  The values of an object that the loop of lines 537 to 541 enters: objects and arrays.
\<close>

fun is_container :: "json \<Rightarrow> bool" where
  "is_container (JObj kvs) = True"
| "is_container (JArr xs) = True"
| "is_container v = False"

text \<open>
  The nesting depth of a document, and \<open>scan_modules\<close> run with a bound on the depth
  of its recursion: \<open>scan_bounded n\<close> may nest at most \<open>n\<close> calls of \<open>scan_modules\<close> and
  gives \<open>None\<close> when the document asks for more. The two loops run inside the call that
  started them, so they pass their own bound on to the calls they make.
\<close>

fun json_depth :: "json \<Rightarrow> nat"
  and values_depth :: "(string \<times> json) list \<Rightarrow> nat"
  and items_depth :: "json list \<Rightarrow> nat" where
  "json_depth (JObj kvs) = Suc (values_depth kvs)"
| "json_depth (JArr xs) = Suc (items_depth xs)"
| "json_depth v = 0"
| "values_depth [] = 0"
| "values_depth ((k, v) # rest) = max (json_depth v) (values_depth rest)"
| "items_depth [] = 0"
| "items_depth (x # xs) = max (json_depth x) (items_depth xs)"

fun scan_bounded :: "nat \<Rightarrow> (json \<Rightarrow> string) \<Rightarrow> json \<Rightarrow> (py_error + found) option"
  and scan_values_bounded ::
    "nat \<Rightarrow> (json \<Rightarrow> string) \<Rightarrow> (string \<times> json) list \<Rightarrow> found \<Rightarrow> (py_error + found) option"
  and scan_items_bounded ::
    "nat \<Rightarrow> (json \<Rightarrow> string) \<Rightarrow> json list \<Rightarrow> found \<Rightarrow> (py_error + found) option" where
  "scan_bounded 0 render doc = None"
| "scan_bounded (Suc n) render (JObj kvs) =
     (case object_hints render kvs of
        Inl e \<Rightarrow> Some (Inl e)
      | Inr acc \<Rightarrow> scan_values_bounded n render kvs acc)"
| "scan_bounded (Suc n) render (JArr xs) = scan_items_bounded n render xs (None, None)"
| "scan_bounded (Suc n) render (JStr s) = Some (consider_value (JStr s) (None, None))"
| "scan_bounded (Suc n) render JNull = Some (Inr (None, None))"
| "scan_bounded (Suc n) render (JBool b) = Some (Inr (None, None))"
| "scan_bounded (Suc n) render (JNum i) = Some (Inr (None, None))"
| "scan_values_bounded n render [] acc = Some (Inr acc)"
| "scan_values_bounded n render ((k, v) # rest) acc =
     (if is_container v
      then (case scan_bounded n render v of
              None \<Rightarrow> None
            | Some (Inl e) \<Rightarrow> Some (Inl e)
            | Some (Inr (d, y)) \<Rightarrow>
                scan_values_bounded n render rest (py_or (fst acc) d, py_or (snd acc) y))
      else scan_values_bounded n render rest acc)"
| "scan_items_bounded n render [] acc = Some (Inr acc)"
| "scan_items_bounded n render (x # xs) acc =
     (case scan_bounded n render x of
        None \<Rightarrow> None
      | Some (Inl e) \<Rightarrow> Some (Inl e)
      | Some (Inr (d, y)) \<Rightarrow>
          scan_items_bounded n render xs (py_or (fst acc) d, py_or (snd acc) y))"

text \<open>
  \<open>fetch_trailer_urls\<close> from line 481 on. The argument is what the loop over locales
  and slug candidates ends with: \<open>None\<close> when no request gave a document. Lines 485 to
  489 collect the \<^verbatim>\<open>modules\<close> of the product-home pages (a missing key gives \<^verbatim>\<open>None\<close>,
  here \<open>JNull\<close>); \<^verbatim>\<open>data.get\<close>, \<^verbatim>\<open>page.get\<close> and \<^verbatim>\<open>.lower()\<close> raise \<open>AttributeError\<close> on a
  value of another type, iterating a number raises \<open>TypeError\<close>.
\<close>

fun pages_loop :: "json list \<Rightarrow> json list \<Rightarrow> py_error + json list" where
  "pages_loop [] modules_candidates = Inr modules_candidates"
| "pages_loop (JObj page # rest) modules_candidates =
     (case get_or (get_or (map_of page ''_type'') (map_of page ''type'')) (Some (JStr [])) of
        Some (JStr t) \<Rightarrow>
          if lower t = ''producthome''
          then pages_loop rest
                 (modules_candidates @ [case map_of page ''modules'' of None \<Rightarrow> JNull | Some v \<Rightarrow> v])
          else pages_loop rest modules_candidates
      | _ \<Rightarrow> Inl AttributeError)"
| "pages_loop (other # rest) modules_candidates = Inl AttributeError"

definition collect_candidates :: "(string \<times> json) list \<Rightarrow> py_error + json list" where
  "collect_candidates data =
     (case get_or (map_of data ''pages'') (Some (JArr [])) of
        Some (JArr pages) \<Rightarrow> pages_loop pages []
      | Some (JObj members) \<Rightarrow> if members = [] then Inr [] else Inl AttributeError
      | Some (JStr s) \<Rightarrow> if s = [] then Inr [] else Inl AttributeError
      | Some (JNum n) \<Rightarrow> Inl TypeError
      | Some (JBool b) \<Rightarrow> Inl TypeError
      | _ \<Rightarrow> Inl TypeError)"

text \<open>
  Lines 551 to 556 merge the scans of the candidates exactly as \<open>scan_items\<close> merges
  the scans of the items of an array; lines 558 to 562 scan the whole document when
  neither kind was found.
\<close>

definition fetch_trailer_urls :: "(json \<Rightarrow> string) \<Rightarrow> json option \<Rightarrow> py_error + found" where
  "fetch_trailer_urls render content =
     (case content of
        None \<Rightarrow> Inr (None, None)
      | Some JNull \<Rightarrow> Inr (None, None)
      | Some (JObj data) \<Rightarrow>
          (case collect_candidates data of
             Inl e \<Rightarrow> Inl e
           | Inr from_pages \<Rightarrow>
               (let modules_candidates =
                      (case map_of data ''modules'' of
                         Some v \<Rightarrow> if from_pages = [] then [v] else from_pages
                       | None \<Rightarrow> from_pages)
                in case scan_items render modules_candidates (None, None) of
                     Inl e \<Rightarrow> Inl e
                   | Inr (direct_video, youtube_link) \<Rightarrow>
                       if \<not> truthy direct_video \<and> \<not> truthy youtube_link
                       then (case scan_modules render (JObj data) of
                               Inl e \<Rightarrow> Inl e
                             | Inr (d, y) \<Rightarrow> Inr (py_or direct_video d, py_or youtube_link y))
                       else Inr (direct_video, youtube_link)))
      | Some other \<Rightarrow> Inl AttributeError)"

text \<open>
  A value already found is kept: \<open>keeps acc res\<close> says that each component of the pair
  that was truthy before a step is the same after it.
\<close>

definition keeps :: "found \<Rightarrow> found \<Rightarrow> bool" where
  "keeps acc res \<longleftrightarrow>
     (truthy (fst acc) \<longrightarrow> fst res = fst acc) \<and> (truthy (snd acc) \<longrightarrow> snd res = snd acc)"

section \<open>The claim on free offers, read literally and as the code has it\<close>

text \<open>
  One date of a window as the specification sees it: absent (the key is missing, null
  or empty), an instant, a text that \<^verbatim>\<open>fromisoformat\<close> rejects, or a date without a
  timezone, which has no instant. A trailing \<^verbatim>\<open>Z\<close> is read as the offset \<^verbatim>\<open>+00:00\<close>.
\<close>

datatype bound = Absent | Instant int | Unreadable | Zoneless

definition read_date :: "iso_parser \<Rightarrow> string option \<Rightarrow> bound" where
  "read_date fromisoformat s =
     (case s of
        None \<Rightarrow> Absent
      | Some x \<Rightarrow>
          if x = [] then Absent
          else (case fromisoformat (replace_Z x) of
                  None \<Rightarrow> Unreadable
                | Some (Aware i off) \<Rightarrow> Instant i
                | Some (Naive w) \<Rightarrow> Zoneless))"

text \<open>
  The window test of the claim, word for word: the start is absent or not after \<open>now\<close>,
  and the end is absent or after \<open>now\<close>.
\<close>

fun absent_or_at_most :: "int \<Rightarrow> bound \<Rightarrow> bool" where
  "absent_or_at_most now Absent = True"
| "absent_or_at_most now (Instant i) = (i \<le> now)"
| "absent_or_at_most now Unreadable = False"
| "absent_or_at_most now Zoneless = False"

fun absent_or_after :: "int \<Rightarrow> bound \<Rightarrow> bool" where
  "absent_or_after now Absent = True"
| "absent_or_after now (Instant i) = (now < i)"
| "absent_or_after now Unreadable = False"
| "absent_or_after now Zoneless = False"

definition claimed_active :: "iso_parser \<Rightarrow> int \<Rightarrow> promo_window \<Rightarrow> bool" where
  "claimed_active fromisoformat now po =
     (absent_or_at_most now (read_date fromisoformat (startDate po)) \<and>
      absent_or_after now (read_date fromisoformat (endDate po)))"

definition claimed_free :: "iso_parser \<Rightarrow> int \<Rightarrow> element \<Rightarrow> bool" where
  "claimed_free fromisoformat now el =
     list_ex (list_ex (claimed_active fromisoformat now)) (promotionalOffers el)"

text \<open>
  The amended test: a window one of whose dates is unreadable counts as active as
  well.
\<close>

definition counted_active :: "iso_parser \<Rightarrow> int \<Rightarrow> promo_window \<Rightarrow> bool" where
  "counted_active fromisoformat now po =
     (read_date fromisoformat (startDate po) = Unreadable \<or>
      read_date fromisoformat (endDate po) = Unreadable \<or>
      claimed_active fromisoformat now po)"

definition counted_free :: "iso_parser \<Rightarrow> int \<Rightarrow> element \<Rightarrow> bool" where
  "counted_free fromisoformat now el =
     list_ex (list_ex (counted_active fromisoformat now)) (promotionalOffers el)"

section \<open>Properties of the subscription store\<close>

lemma get_dict_update [simp]: "get_dict (AList.update k v d) k = v"
  by (simp add: get_dict_def update_conv')

lemma get_dict_update_other: "k' \<noteq> k \<Longrightarrow> get_dict (AList.update k v d) k' = get_dict d k'"
  by (simp add: get_dict_def update_conv')

lemma load_ensure [simp]: "load_json (ensure_files_exist f) default_document = load_json f default_document"
  by (simp add: load_json_def ensure_files_exist_def save_json_def split: option.splits)

lemma load_save [simp]: "load_json (save_json d) dflt = d"
  by (simp add: load_json_def save_json_def)

lemma ensure_save [simp]: "ensure_files_exist (save_json d) = save_json d"
  by (simp add: ensure_files_exist_def save_json_def)

lemma keys_update: "fst ` set (AList.update k v al) = insert k (fst ` set al)"
  by (simp add: dom_update)

lemma keys_delete: "fst ` set (AList.delete k al) = fst ` set al - {k}"
  by (induct al) auto

lemma filter_key_update:
  "distinct (map fst al) \<Longrightarrow> filter (\<lambda>(k', m). k' = k) (AList.update k v al) = [(k, v)]"
  by (induct al) (auto simp: filter_empty_conv rev_image_eqI)

lemma records_update:
  "distinct (map fst d) \<Longrightarrow>
   concat (map (\<lambda>(c, subs). if c = k then g subs else []) (AList.update k v d)) = g v"
  by (induct d) (auto simp: rev_image_eqI intro!: concat_eq_Nil_conv[THEN iffD2])

lemma wf_load: "wf_file f \<Longrightarrow> wf_document (load_json f default_document)"
  by (simp add: wf_file_def load_json_def default_document_def wf_document_def split: option.splits)

lemma wf_get_dict: "wf_document d \<Longrightarrow> distinct (map fst (get_dict (offer_subs d) c))"
  by (auto simp: wf_document_def get_dict_def list_all_iff split: option.splits dest!: map_of_SomeD)


text \<open>
  Claim C9. For every user and offer id: subscribing and then asking
  \<open>is_subscribed_to_offer\<close> answers true; unsubscribing and then asking answers false;
  subscribing twice in a row (there is no error branch: the operation is total) leaves
  exactly one record for that user and offer; and unsubscribing a record that is not
  there changes nothing (the file is only created, as \<open>ensure_files_exist\<close> does).
\<close>

theorem subscription_idempotence:
  assumes "wf_file f"
  shows "fst (is_subscribed_to_offer c oid (subscribe_to_offer c oid t s f)) \<and>
         \<not> fst (is_subscribed_to_offer c oid (unsubscribe_from_offer c oid f)) \<and>
         length (records_of (subscribe_to_offer c oid t2 s2 (subscribe_to_offer c oid t s f)) c oid) = 1 \<and>
         (\<not> fst (is_subscribed_to_offer c oid f) \<longrightarrow>
            unsubscribe_from_offer c oid f = ensure_files_exist f \<and>
            load_json (unsubscribe_from_offer c oid f) default_document = load_json f default_document)"
proof -
  have d1: "distinct (map fst (offer_subs (load_json f default_document)))"
    using wf_load [OF assms] by (simp add: wf_document_def)
  have d2: "distinct (map fst (get_dict (offer_subs (load_json f default_document)) c))"
    using wf_load [OF assms] by (rule wf_get_dict)
  have one: "length (records_of (subscribe_to_offer c oid t2 s2 (subscribe_to_offer c oid t s f)) c oid) = 1"
    unfolding records_of_def subscribe_to_offer_def Let_def
    by (simp add: records_update distinct_update d1 filter_key_update d2)
  have sub: "fst (is_subscribed_to_offer c oid (subscribe_to_offer c oid t s f))"
    by (simp add: is_subscribed_to_offer_def subscribe_to_offer_def Let_def keys_update)
  have unsub: "\<not> fst (is_subscribed_to_offer c oid (unsubscribe_from_offer c oid f))"
    by (simp add: is_subscribed_to_offer_def unsubscribe_from_offer_def Let_def keys_delete)
  have absent: "\<not> fst (is_subscribed_to_offer c oid f) \<longrightarrow>
            unsubscribe_from_offer c oid f = ensure_files_exist f \<and>
            load_json (unsubscribe_from_offer c oid f) default_document = load_json f default_document"
    by (simp add: is_subscribed_to_offer_def unsubscribe_from_offer_def Let_def)
  from sub unsub one absent show ?thesis by blast
qed

theorem subscription_idempotence_witness:
  "wf_file None \<and>
   \<not> fst (is_subscribed_to_offer 7 ''o1'' None) \<and>
   fst (is_subscribed_to_offer 7 ''o1'' (subscribe_to_offer 7 ''o1'' ''Alpha'' None None)) \<and>
   \<not> fst (is_subscribed_to_offer 7 ''o1'' (unsubscribe_from_offer 7 ''o1'' None)) \<and>
   length (records_of (subscribe_to_offer 7 ''o1'' ''Alpha'' (Some ''alpha'')
             (subscribe_to_offer 7 ''o1'' ''Alpha'' None None)) 7 ''o1'') = 1 \<and>
   unsubscribe_from_offer 7 ''o1'' None = ensure_files_exist None"
proof -
  have w: "wf_file None" by (simp add: wf_file_def)
  have n: "\<not> fst (is_subscribed_to_offer 7 ''o1'' None)"
    by (simp add: is_subscribed_to_offer_def ensure_files_exist_def save_json_def
        load_json_def default_document_def get_dict_def)
  show ?thesis
    using w n subscription_idempotence [OF w, of 7 "''o1''" "''Alpha''" None "''Alpha''" "Some ''alpha''"]
    by blast
qed

text \<open>
  Claim C4, as amended. \<open>subscribe_to_offer\<close> is an upsert that always stores
  \<open>notified = False\<close> together with the given title and page slug, whatever the record
  held before (a record already notified is reset as well); subscribing again with the
  same arguments changes nothing more; and no other record of the document is touched.
\<close>

theorem subscribe_upsert_resets_notified:
  "record_of (subscribe_to_offer c oid t s f) c oid =
      Some \<lparr>title = t, pageSlug = or_empty s, notified = False\<rparr> \<and>
   subscribe_to_offer c oid t s (subscribe_to_offer c oid t s f) = subscribe_to_offer c oid t s f \<and>
   (c' \<noteq> c \<or> oid' \<noteq> oid \<longrightarrow>
      record_of (subscribe_to_offer c oid t s f) c' oid' = record_of f c' oid')"
proof -
  have a: "record_of (subscribe_to_offer c oid t s f) c oid =
      Some \<lparr>title = t, pageSlug = or_empty s, notified = False\<rparr>"
    by (simp add: record_of_def subscribe_to_offer_def Let_def update_conv')
  have b: "subscribe_to_offer c oid t s (subscribe_to_offer c oid t s f) = subscribe_to_offer c oid t s f"
    by (simp add: subscribe_to_offer_def Let_def)
  have c: "c' \<noteq> c \<or> oid' \<noteq> oid \<longrightarrow>
      record_of (subscribe_to_offer c oid t s f) c' oid' = record_of f c' oid'"
    by (cases "c' = c")
      (auto simp add: record_of_def subscribe_to_offer_def Let_def update_conv' get_dict_update_other)
  from a b c show ?thesis by blast
qed

theorem subscribe_upsert_resets_notified_witness:
  "''o2'' \<noteq> ''o1'' \<and>
   record_of (subscribe_to_offer 7 ''o1'' ''Alpha'' None
      (Some \<lparr>chat_ids = [], users = [],
             offer_subs = [(7, [(''o2'', \<lparr>title = ''Beta'', pageSlug = ''beta'', notified = True\<rparr>)])]\<rparr>))
      7 ''o2'' = Some \<lparr>title = ''Beta'', pageSlug = ''beta'', notified = True\<rparr>"
  using subscribe_upsert_resets_notified [of 7 "''o1''" "''Alpha''" None
      "Some \<lparr>chat_ids = [], users = [],
             offer_subs = [(7, [(''o2'', \<lparr>title = ''Beta'', pageSlug = ''beta'', notified = True\<rparr>)])]\<rparr>"
      7 "''o2''"]
  by (simp add: record_of_def load_json_def get_dict_def)

text \<open>
  The claim as stated fails: an existing record that was never unsubscribed and is
  already notified has \<open>notified\<close> reset by a second \<open>subscribe_to_offer\<close>.
\<close>

theorem subscribe_resets_notified_counterexample:
  "map_option notified (record_of
      (Some \<lparr>chat_ids = [], users = [],
             offer_subs = [(7, [(''o1'', \<lparr>title = ''Alpha'', pageSlug = ''alpha'', notified = True\<rparr>)])]\<rparr>)
      7 ''o1'') = Some True \<and>
   map_option notified (record_of
      (subscribe_to_offer 7 ''o1'' ''Alpha'' (Some ''alpha'')
        (Some \<lparr>chat_ids = [], users = [],
               offer_subs = [(7, [(''o1'', \<lparr>title = ''Alpha'', pageSlug = ''alpha'', notified = True\<rparr>)])]\<rparr>))
      7 ''o1'') = Some False"
  by (simp add: record_of_def subscribe_to_offer_def ensure_files_exist_def save_json_def
      load_json_def get_dict_def Let_def)

section \<open>Properties of the TTL cache\<close>

text \<open>
  Claim C5. For every key, a lookup returns the stored items exactly when an entry
  exists under the key and \<open>now - fetchedAt\<close> is at most 600 seconds; a lookup that
  returns nothing leaves no entry under the key (an expired entry is evicted), a lookup
  that returns items leaves the cache as it was, and an entry more than 600 seconds old
  is never returned.
\<close>

theorem cache_lookup_ttl:
  "(fst (get_cached now l c k ch) = Some its \<longleftrightarrow>
      (\<exists>e. ch (cache_key l c k) = Some e \<and> items e = its \<and>
           now - at e \<le> CACHE_TTL_SECONDS * 1000000)) \<and>
   (fst (get_cached now l c k ch) = None \<longrightarrow>
      snd (get_cached now l c k ch) = ch(cache_key l c k := None)) \<and>
   (fst (get_cached now l c k ch) \<noteq> None \<longrightarrow> snd (get_cached now l c k ch) = ch) \<and>
   (\<forall>e. ch (cache_key l c k) = Some e \<and> now - at e > 600 * 1000000 \<longrightarrow>
      fst (get_cached now l c k ch) = None)"
  by (auto simp: get_cached_def Let_def CACHE_TTL_SECONDS_def split: option.splits)

theorem cache_lookup_ttl_witness:
  "fst (get_cached 600000000 ''en-US'' ''US'' ''current''
         [cache_key ''en-US'' ''US'' ''current'' \<mapsto> \<lparr>at = 0, items = []\<rparr>]) = Some [] \<and>
   snd (get_cached 600000000 ''en-US'' ''US'' ''current''
         [cache_key ''en-US'' ''US'' ''current'' \<mapsto> \<lparr>at = 0, items = []\<rparr>]) =
     [cache_key ''en-US'' ''US'' ''current'' \<mapsto> \<lparr>at = 0, items = []\<rparr>] \<and>
   fst (get_cached 600000001 ''en-US'' ''US'' ''current''
         [cache_key ''en-US'' ''US'' ''current'' \<mapsto> \<lparr>at = 0, items = []\<rparr>]) = None \<and>
   snd (get_cached 600000001 ''en-US'' ''US'' ''current''
         [cache_key ''en-US'' ''US'' ''current'' \<mapsto> \<lparr>at = 0, items = []\<rparr>]) = Map.empty"
proof -
  let ?C = "[cache_key ''en-US'' ''US'' ''current'' \<mapsto> \<lparr>at = 0, items = []\<rparr>]"
  have e: "?C (cache_key ''en-US'' ''US'' ''current'') = Some \<lparr>at = 0, items = []\<rparr>"
    by simp
  have hit: "fst (get_cached 600000000 ''en-US'' ''US'' ''current'' ?C) = Some []"
    using cache_lookup_ttl [of 600000000 "''en-US''" "''US''" "''current''" ?C "[]"] e
    by (simp add: CACHE_TTL_SECONDS_def)
  have same: "snd (get_cached 600000000 ''en-US'' ''US'' ''current'' ?C) = ?C"
    using cache_lookup_ttl [of 600000000 "''en-US''" "''US''" "''current''" ?C "[]"] hit
    by simp
  have old: "?C (cache_key ''en-US'' ''US'' ''current'') = Some \<lparr>at = 0, items = []\<rparr> \<and>
       600000001 - at \<lparr>at = 0, items = []\<rparr> > 600 * 1000000"
    by simp
  have miss: "fst (get_cached 600000001 ''en-US'' ''US'' ''current'' ?C) = None"
    using cache_lookup_ttl [of 600000001 "''en-US''" "''US''" "''current''" ?C "[]"] old
    by blast
  have gone: "snd (get_cached 600000001 ''en-US'' ''US'' ''current'' ?C) = Map.empty"
    using cache_lookup_ttl [of 600000001 "''en-US''" "''US''" "''current''" ?C "[]"] miss
    by simp
  from hit same miss gone show ?thesis by blast
qed

lemma get_cached_hit:
  "ch (cache_key l c k) = Some e \<Longrightarrow> now - at e \<le> CACHE_TTL_SECONDS * 1000000 \<Longrightarrow>
   get_cached now l c k ch = (Some (items e), ch)"
  by (simp add: get_cached_def Let_def)

lemma get_cached_Some:
  "get_cached now l c k ch = (Some its, ch') \<Longrightarrow>
   ch' = ch \<and> (\<exists>e. ch (cache_key l c k) = Some e \<and> items e = its)"
  by (auto simp: get_cached_def Let_def split: option.splits if_splits)

lemma fetch_free_games_populates:
  assumes "fetch_free_games p env l c st = (Inr r, st')"
  shows "upstream_calls st' \<le> Suc (upstream_calls st) \<and>
         (\<exists>e. the_cache st' (cache_key l c ''current'') = Some e \<and> items e = r)"
proof (cases "get_cached (t_lookup env) l c ''current'' (the_cache st)")
  case (Pair res c1)
  show ?thesis
  proof (cases res)
    case None
    with Pair assms show ?thesis
      by (auto simp: fetch_free_games_def Let_def set_cached_def split: sum.splits)
  next
    case (Some cached)
    with Pair get_cached_Some [of "t_lookup env" l c "''current''" "the_cache st" cached c1] assms
    show ?thesis
      by (auto simp: fetch_free_games_def)
  qed
qed

lemma fetch_free_games_hit:
  assumes "the_cache st (cache_key l c ''current'') = Some e"
    and "t_lookup env - at e \<le> CACHE_TTL_SECONDS * 1000000"
  shows "fetch_free_games p env l c st = (Inr (items e), st)"
  using assms by (simp add: fetch_free_games_def get_cached_hit)

lemma fetch_upcoming_games_populates:
  assumes "fetch_upcoming_games p fmt env l c st = (Inr r, st')"
  shows "upstream_calls st' \<le> Suc (upstream_calls st) \<and>
         (\<exists>e. the_cache st' (cache_key l c ''upcoming'') = Some e \<and> items e = r)"
proof (cases "get_cached (t_lookup env) l c ''upcoming'' (the_cache st)")
  case (Pair res c1)
  show ?thesis
  proof (cases res)
    case None
    with Pair assms show ?thesis
      by (auto simp: fetch_upcoming_games_def Let_def set_cached_def split: sum.splits)
  next
    case (Some cached)
    with Pair get_cached_Some [of "t_lookup env" l c "''upcoming''" "the_cache st" cached c1] assms
    show ?thesis
      by (auto simp: fetch_upcoming_games_def)
  qed
qed

lemma fetch_upcoming_games_hit:
  assumes "the_cache st (cache_key l c ''upcoming'') = Some e"
    and "t_lookup env - at e \<le> CACHE_TTL_SECONDS * 1000000"
  shows "fetch_upcoming_games p fmt env l c st = (Inr (items e), st)"
  using assms by (simp add: fetch_upcoming_games_def get_cached_hit)

text \<open>
  Claim C6. Two calls for the same locale, country and class, the second within the TTL
  of the entry the first one left: the first call, when it returns, has issued at most
  one upstream request and has left its result in the cache (a cache hit leaves the
  entry as it was, a fresh fetch stores the new list); the second call then returns the
  same list and leaves the state, the count of upstream requests included, unchanged.
  This holds for \<open>fetch_free_games\<close> and for \<open>fetch_upcoming_games\<close>.
\<close>

theorem cache_idempotence:
  "(fetch_free_games p env1 l c st = (Inr r1, st1) \<longrightarrow>
      upstream_calls st1 \<le> Suc (upstream_calls st) \<and>
      (\<exists>e. the_cache st1 (cache_key l c ''current'') = Some e \<and> items e = r1) \<and>
      (\<forall>e. the_cache st1 (cache_key l c ''current'') = Some e \<and>
            t_lookup env2 - at e \<le> CACHE_TTL_SECONDS * 1000000 \<longrightarrow>
            fetch_free_games p env2 l c st1 = (Inr r1, st1))) \<and>
   (fetch_upcoming_games p fmt env1 l c st = (Inr r2, st2) \<longrightarrow>
      upstream_calls st2 \<le> Suc (upstream_calls st) \<and>
      (\<exists>e. the_cache st2 (cache_key l c ''upcoming'') = Some e \<and> items e = r2) \<and>
      (\<forall>e. the_cache st2 (cache_key l c ''upcoming'') = Some e \<and>
            t_lookup env2 - at e \<le> CACHE_TTL_SECONDS * 1000000 \<longrightarrow>
            fetch_upcoming_games p fmt env2 l c st2 = (Inr r2, st2)))"
proof (intro conjI impI allI)
  assume a: "fetch_free_games p env1 l c st = (Inr r1, st1)"
  from fetch_free_games_populates [OF a]
  show "upstream_calls st1 \<le> Suc (upstream_calls st)"
    and "\<exists>e. the_cache st1 (cache_key l c ''current'') = Some e \<and> items e = r1"
    by blast+
  fix e
  assume b: "the_cache st1 (cache_key l c ''current'') = Some e \<and>
            t_lookup env2 - at e \<le> CACHE_TTL_SECONDS * 1000000"
  with fetch_free_games_populates [OF a] have "items e = r1" by auto
  with fetch_free_games_hit [of st1 l c e env2 p] b
  show "fetch_free_games p env2 l c st1 = (Inr r1, st1)" by simp
next
  assume a: "fetch_upcoming_games p fmt env1 l c st = (Inr r2, st2)"
  from fetch_upcoming_games_populates [OF a]
  show "upstream_calls st2 \<le> Suc (upstream_calls st)"
    and "\<exists>e. the_cache st2 (cache_key l c ''upcoming'') = Some e \<and> items e = r2"
    by blast+
  fix e
  assume b: "the_cache st2 (cache_key l c ''upcoming'') = Some e \<and>
            t_lookup env2 - at e \<le> CACHE_TTL_SECONDS * 1000000"
  with fetch_upcoming_games_populates [OF a] have "items e = r2" by auto
  with fetch_upcoming_games_hit [of st2 l c e env2 p fmt] b
  show "fetch_upcoming_games p fmt env2 l c st2 = (Inr r2, st2)" by simp
qed


theorem cache_idempotence_witness:
  "(let el = \<lparr>el_title = Some ''Alpha'', el_id = Some ''o1'', el_items = [],
               promotionalOffers = [[\<lparr>startDate = None, endDate = None\<rparr>]],
               upcomingPromotionalOffers = [], mappings = [], offerMappings = [],
               productSlug = None, urlSlug = None, upcomingStart = None\<rparr>;
        env1 = \<lparr>t_lookup = 0, upstream = Inr [el], t_classify = 1, t_store = 2\<rparr>;
        env2 = \<lparr>t_lookup = 600000002, upstream = Inl UpstreamError, t_classify = 600000003,
                 t_store = 600000004\<rparr>;
        st = \<lparr>the_cache = Map.empty, upstream_calls = 0\<rparr>;
        first = fetch_free_games (\<lambda>s. None) env1 ''en-US'' ''US'' st;
        second = fetch_free_games (\<lambda>s. None) env2 ''en-US'' ''US'' (snd first);
        first' = fetch_upcoming_games (\<lambda>s. None) (\<lambda>d. []) env1 ''en-US'' ''US'' st;
        second' = fetch_upcoming_games (\<lambda>s. None) (\<lambda>d. []) env2 ''en-US'' ''US'' (snd first')
    in fst first = Inr [el] \<and> second = (Inr [el], snd first) \<and> upstream_calls (snd second) = 1 \<and>
       fst first' = Inr [] \<and> second' = (Inr [], snd first') \<and> upstream_calls (snd second') = 1)"
proof -
  define el where "el = \<lparr>el_title = Some ''Alpha'', el_id = Some ''o1'', el_items = [],
               promotionalOffers = [[\<lparr>startDate = None, endDate = None\<rparr>]],
               upcomingPromotionalOffers = [], mappings = [], offerMappings = [],
               productSlug = None, urlSlug = None, upcomingStart = None\<rparr>"
  define env1 where "env1 = \<lparr>t_lookup = 0, upstream = Inr [el], t_classify = 1, t_store = 2\<rparr>"
  define env2 where "env2 = \<lparr>t_lookup = 600000002, upstream = Inl UpstreamError,
      t_classify = 600000003, t_store = 600000004\<rparr>"
  define st where "st = \<lparr>the_cache = Map.empty, upstream_calls = 0\<rparr>"
  define p where "p = (\<lambda>s::string. None :: datetime option)"
  define fmt where "fmt = (\<lambda>d::datetime. [] :: string)"
  define first where "first = fetch_free_games p env1 ''en-US'' ''US'' st"
  define first' where "first' = fetch_upcoming_games p fmt env1 ''en-US'' ''US'' st"
  have act: "offers_loop p 1 (promotionalOffers el) = Inr True"
    by (simp add: el_def p_def window_active_def window_bounds_def parse_date_def)
  have f1: "first = (Inr [el],
      \<lparr>the_cache = [cache_key ''en-US'' ''US'' ''current'' \<mapsto> \<lparr>at = 2, items = [el]\<rparr>],
       upstream_calls = 1\<rparr>)"
    using act
    by (simp add: first_def fetch_free_games_def get_cached_def set_cached_def env1_def st_def
        Let_def) (simp add: el_def)
  have f1': "first' = (Inr [],
      \<lparr>the_cache = [cache_key ''en-US'' ''US'' ''upcoming'' \<mapsto> \<lparr>at = 2, items = []\<rparr>],
       upstream_calls = 1\<rparr>)"
    by (simp add: first'_def fetch_upcoming_games_def get_cached_def set_cached_def env1_def
        st_def Let_def) (simp add: el_def)
  have a: "fetch_free_games p env1 ''en-US'' ''US'' st = (Inr [el], snd first)"
    using f1 by (simp add: first_def)
  have a': "fetch_upcoming_games p fmt env1 ''en-US'' ''US'' st = (Inr [], snd first')"
    using f1' by (simp add: first'_def)
  have b: "the_cache (snd first) (cache_key ''en-US'' ''US'' ''current'') =
             Some \<lparr>at = 2, items = [el]\<rparr> \<and>
           t_lookup env2 - at \<lparr>at = 2, items = [el]\<rparr> \<le> CACHE_TTL_SECONDS * 1000000"
    by (simp add: f1 env2_def CACHE_TTL_SECONDS_def)
  have b': "the_cache (snd first') (cache_key ''en-US'' ''US'' ''upcoming'') =
             Some \<lparr>at = 2, items = []\<rparr> \<and>
           t_lookup env2 - at \<lparr>at = 2, items = []\<rparr> \<le> CACHE_TTL_SECONDS * 1000000"
    by (simp add: f1' env2_def CACHE_TTL_SECONDS_def)
  note th = cache_idempotence [of p env1 "''en-US''" "''US''" st "[el]" "snd first" env2 fmt
      "[]" "snd first'"]
  from th a b have s: "fetch_free_games p env2 ''en-US'' ''US'' (snd first) = (Inr [el], snd first)"
    by blast
  from th a' b' have s': "fetch_upcoming_games p fmt env2 ''en-US'' ''US'' (snd first') = (Inr [], snd first')"
    by blast
  define second where "second = fetch_free_games p env2 ''en-US'' ''US'' (snd first)"
  define second' where "second' = fetch_upcoming_games p fmt env2 ''en-US'' ''US'' (snd first')"
  have c1: "fst first = Inr [el]" and d1: "fst first' = Inr []"
    by (simp_all add: f1 f1')
  have c2: "second = (Inr [el], snd first)" and d2: "second' = (Inr [], snd first')"
    using s s' by (simp_all add: second_def second'_def)
  have c3: "upstream_calls (snd second) = 1" and d3: "upstream_calls (snd second') = 1"
    by (simp_all add: c2 d2 f1 f1')
  have "fst first = Inr [el] \<and> second = (Inr [el], snd first) \<and> upstream_calls (snd second) = 1 \<and>
       fst first' = Inr [] \<and> second' = (Inr [], snd first') \<and> upstream_calls (snd second') = 1"
    using c1 c2 c3 d1 d2 d3 by blast
  then show ?thesis
    unfolding Let_def second_def second'_def first_def first'_def env1_def env2_def st_def
      p_def fmt_def el_def .
qed

section \<open>Properties of the classification of free offers\<close>

lemma window_active_aware:
  "aware_window p po \<Longrightarrow> window_active p now po = Inr (active_window p now po)"
  unfolding aware_window_def window_active_def active_window_def utc_now_def
  by (cases "window_bounds p po"; cases "fst (window_bounds p po)"; cases "snd (window_bounds p po)";
      cases "the (fst (window_bounds p po))"; cases "the (snd (window_bounds p po))")
     (auto split: bool.splits)

lemma windows_loop_aware:
  "list_all (aware_window p) pos \<Longrightarrow> windows_loop p now pos = Inr (list_ex (active_window p now) pos)"
  by (induction pos) (auto simp: window_active_aware split: bool.splits)

lemma offers_loop_aware:
  "list_all (list_all (aware_window p)) offers \<Longrightarrow>
   offers_loop p now offers = Inr (list_ex (list_ex (active_window p now)) offers)"
  by (induction offers) (auto simp: windows_loop_aware split: bool.splits)

lemma free_loop_aware:
  "list_all (aware_windows p) els \<Longrightarrow>
   free_loop p now els acc = Inr (acc @ filter (has_active_window p now) els)"
proof (induction els arbitrary: acc)
  case Nil
  then show ?case by simp
next
  case (Cons el els)
  then show ?case
    by (auto simp: offers_loop_aware aware_windows_def has_active_window_def)
qed

lemma count_list_filter:
  "count_list (filter P xs) x = (if P x then count_list xs x else 0)"
  by (induction xs) auto

lemma parse_fails_bounds: "parse_fails p po \<Longrightarrow> window_bounds p po = (None, None)"
  by (auto simp: parse_fails_def window_bounds_def split: option.splits)

lemma parse_fails_active: "parse_fails p po \<Longrightarrow> window_active p now po = Inr True"
  by (simp add: window_active_def parse_fails_bounds)

lemma windows_loop_found:
  "windows_loop p now pos = Inr b \<Longrightarrow> po \<in> set pos \<Longrightarrow> window_active p now po = Inr True \<Longrightarrow> b"
  by (induction pos) (auto split: sum.splits bool.splits)

lemma offers_loop_found:
  "offers_loop p now offers = Inr b \<Longrightarrow> offer \<in> set offers \<Longrightarrow> po \<in> set offer \<Longrightarrow>
   window_active p now po = Inr True \<Longrightarrow> b"
  by (induction offers) (auto split: sum.splits bool.splits dest: windows_loop_found)

lemma free_loop_acc:
  "free_loop p now els acc = Inr r \<Longrightarrow> set acc \<subseteq> set r"
proof (induction els arbitrary: acc)
  case Nil
  then show ?case by simp
next
  case (Cons x els)
  from Cons.prems consider "free_loop p now els acc = Inr r" | "free_loop p now els (acc @ [x]) = Inr r"
    by (auto split: if_splits sum.splits bool.splits)
  then show ?case
  proof cases
    case 1
    then show ?thesis by (rule Cons.IH)
  next
    case 2
    from Cons.IH [OF 2] show ?thesis by simp
  qed
qed

lemma free_loop_keeps:
  "free_loop p now els acc = Inr r \<Longrightarrow> el \<in> set els \<Longrightarrow> offer \<in> set (promotionalOffers el) \<Longrightarrow>
   po \<in> set offer \<Longrightarrow> window_active p now po = Inr True \<Longrightarrow> el \<in> set r"
proof (induction els arbitrary: acc)
  case Nil
  then show ?case by simp
next
  case (Cons x els)
  show ?case
  proof (cases "x = el")
    case True
    from Cons.prems have ne: "promotionalOffers x \<noteq> []" using True by auto
    from Cons.prems(1) ne obtain b where b: "offers_loop p now (promotionalOffers x) = Inr b"
      by (auto split: sum.splits)
    with Cons.prems True have "b" by (auto dest: offers_loop_found)
    with b ne Cons.prems(1) have "free_loop p now els (acc @ [x]) = Inr r" by simp
    from free_loop_acc [OF this] True show ?thesis by simp
  next
    case False
    with Cons.prems(2) have "el \<in> set els" by simp
    with Cons.IH Cons.prems show ?thesis
      by (auto split: if_splits sum.splits bool.splits)
  qed
qed


lemma fetch_free_games_miss:
  "fst (get_cached (t_lookup env) l c ''current'' (the_cache st)) = None \<Longrightarrow>
   upstream env = Inr elements \<Longrightarrow>
   fst (fetch_free_games p env l c st) = free_loop p (t_classify env) elements []"
  by (cases "get_cached (t_lookup env) l c ''current'' (the_cache st)")
     (auto simp: fetch_free_games_def Let_def split: sum.splits)

lemma window_active_counted:
  "window_active p now po = Inr b \<Longrightarrow> b = counted_active p now po"
  unfolding window_active_def window_bounds_def counted_active_def claimed_active_def
    read_date_def parse_date_def utc_now_def
  by (cases "startDate po"; cases "endDate po")
     (auto split: if_splits option.splits datetime.splits sum.splits bool.splits)

lemma windows_loop_counted:
  "windows_loop p now pos = Inr b \<Longrightarrow> b = list_ex (counted_active p now) pos"
  by (induction pos) (auto split: sum.splits bool.splits dest: window_active_counted)

lemma offers_loop_counted:
  "offers_loop p now offers = Inr b \<Longrightarrow> b = list_ex (list_ex (counted_active p now)) offers"
  by (induction offers) (auto split: sum.splits bool.splits dest: windows_loop_counted)

lemma free_loop_counted:
  "free_loop p now els acc = Inr r \<Longrightarrow> r = acc @ filter (counted_free p now) els"
proof (induction els arbitrary: acc)
  case Nil
  then show ?case by simp
next
  case (Cons el els)
  show ?case
  proof (cases "promotionalOffers el = []")
    case True
    with Cons.prems have "free_loop p now els acc = Inr r" by simp
    from Cons.IH [OF this] True show ?thesis by (simp add: counted_free_def)
  next
    case False
    with Cons.prems obtain b where b: "offers_loop p now (promotionalOffers el) = Inr b"
      by (auto split: sum.splits)
    from offers_loop_counted [OF b] have cb: "b = counted_free p now el"
      by (simp add: counted_free_def)
    show ?thesis
    proof (cases b)
      case True
      with Cons.prems False b have "free_loop p now els (acc @ [el]) = Inr r" by simp
      from Cons.IH [OF this] True cb show ?thesis by simp
    next
      case no: False
      with Cons.prems False b have "free_loop p now els acc = Inr r" by simp
      from Cons.IH [OF this] no cb show ?thesis by simp
    qed
  qed
qed


text \<open>
  Claim C2, as amended. Whenever \<open>fetch_free_games\<close> fetches a catalog at the instant
  \<open>now\<close> (a cache miss answered by the upstream with the list \<open>elements\<close>) and returns a
  result, the result is exactly the elements that have at least one window that
  counts as active, in their order: every occurrence of such an element is returned
  once, whatever other windows it carries, and no other element is returned. A window
  counts as active when its start is absent or not after \<open>now\<close> and its end is absent
  or after \<open>now\<close>, and also when one of its two dates is unreadable. A result is
  returned at least when no window keeps a date without a timezone.
\<close>

theorem fetch_free_games_counted_exactly_once:
  assumes "fst (get_cached (t_lookup env) l c ''current'' (the_cache st)) = None"
    and "upstream env = Inr elements"
  shows "(fst (fetch_free_games p env l c st) = Inr r \<longrightarrow>
            r = filter (counted_free p (t_classify env)) elements \<and>
            (\<forall>el. count_list r el =
               (if counted_free p (t_classify env) el then count_list elements el else 0))) \<and>
         (list_all (aware_windows p) elements \<longrightarrow>
            (\<exists>r'. fst (fetch_free_games p env l c st) = Inr r'))"
proof (rule conjI; rule impI)
  assume "fst (fetch_free_games p env l c st) = Inr r"
  then have "free_loop p (t_classify env) elements [] = Inr r"
    using fetch_free_games_miss [OF assms, of p] by simp
  from free_loop_counted [OF this]
  have "r = filter (counted_free p (t_classify env)) elements" by simp
  then show "r = filter (counted_free p (t_classify env)) elements \<and>
            (\<forall>el. count_list r el =
               (if counted_free p (t_classify env) el then count_list elements el else 0))"
    by (simp add: count_list_filter)
next
  assume "list_all (aware_windows p) elements"
  from free_loop_aware [OF this, of "t_classify env" "[]"] fetch_free_games_miss [OF assms, of p]
  show "\<exists>r'. fst (fetch_free_games p env l c st) = Inr r'" by simp
qed

theorem fetch_free_games_counted_exactly_once_witness:
  "(let p = (\<lambda>s. if s = ''2999-01-01T00:00:00+00:00'' then Some (Aware 32472144000000000 0) else None);
        alpha = \<lparr>el_title = Some ''Alpha'', el_id = Some ''a'', el_items = [],
                  promotionalOffers = [[\<lparr>startDate = None, endDate = Some ''2999-01-01T00:00:00Z''\<rparr>]],
                  upcomingPromotionalOffers = [], mappings = [], offerMappings = [],
                  productSlug = None, urlSlug = None, upcomingStart = None\<rparr>;
        beta = \<lparr>el_title = Some ''Beta'', el_id = Some ''b'', el_items = [],
                  promotionalOffers = [[\<lparr>startDate = Some ''2999-01-01T00:00:00Z'', endDate = None\<rparr>]],
                  upcomingPromotionalOffers = [], mappings = [], offerMappings = [],
                  productSlug = None, urlSlug = None, upcomingStart = None\<rparr>;
        env = \<lparr>t_lookup = 1704067200000000, upstream = Inr [alpha, beta],
                t_classify = 1704067200000000, t_store = 1704067200000000\<rparr>;
        st = \<lparr>the_cache = Map.empty, upstream_calls = 0\<rparr>
    in fst (fetch_free_games p env ''en-US'' ''US'' st) = Inr [alpha] \<and>
       filter (counted_free p 1704067200000000) [alpha, beta] = [alpha])"
proof -
  define p where "p = (\<lambda>s. if s = ''2999-01-01T00:00:00+00:00''
      then Some (Aware 32472144000000000 0) else None)"
  define alpha where "alpha = \<lparr>el_title = Some ''Alpha'', el_id = Some ''a'', el_items = [],
                  promotionalOffers = [[\<lparr>startDate = None, endDate = Some ''2999-01-01T00:00:00Z''\<rparr>]],
                  upcomingPromotionalOffers = [], mappings = [], offerMappings = [],
                  productSlug = None, urlSlug = None, upcomingStart = None\<rparr>"
  define beta where "beta = \<lparr>el_title = Some ''Beta'', el_id = Some ''b'', el_items = [],
                  promotionalOffers = [[\<lparr>startDate = Some ''2999-01-01T00:00:00Z'', endDate = None\<rparr>]],
                  upcomingPromotionalOffers = [], mappings = [], offerMappings = [],
                  productSlug = None, urlSlug = None, upcomingStart = None\<rparr>"
  define env where "env = \<lparr>t_lookup = 1704067200000000, upstream = Inr [alpha, beta],
                t_classify = 1704067200000000, t_store = 1704067200000000\<rparr>"
  define st where "st = \<lparr>the_cache = Map.empty, upstream_calls = 0\<rparr>"
  have z: "replace_Z ''2999-01-01T00:00:00Z'' = ''2999-01-01T00:00:00+00:00''"
    by (simp add: replace_Z_def)
  have wa: "window_active p 1704067200000000
              \<lparr>startDate = None, endDate = Some ''2999-01-01T00:00:00Z''\<rparr> = Inr True"
    by (simp add: window_active_def window_bounds_def parse_date_def z p_def utc_now_def)
  have wb: "window_active p 1704067200000000
              \<lparr>startDate = Some ''2999-01-01T00:00:00Z'', endDate = None\<rparr> = Inr False"
    by (simp add: window_active_def window_bounds_def parse_date_def z p_def utc_now_def)
  have h1: "fst (get_cached (t_lookup env) ''en-US'' ''US'' ''current'' (the_cache st)) = None"
    by (simp add: get_cached_def st_def)
  have h2: "upstream env = Inr [alpha, beta]" by (simp add: env_def)
  have tc: "t_classify env = 1704067200000000" by (simp add: env_def)
  have "free_loop p 1704067200000000 [alpha, beta] [] = Inr [alpha]"
    by (simp add: alpha_def beta_def wa wb)
  then have h3: "fst (fetch_free_games p env ''en-US'' ''US'' st) = Inr [alpha]"
    using fetch_free_games_miss [OF h1 h2, of p] by (simp add: tc)
  have "[alpha] = filter (counted_free p (t_classify env)) [alpha, beta]"
    using fetch_free_games_counted_exactly_once [OF h1 h2, of p "[alpha]", THEN conjunct1,
        THEN mp, OF h3] by (rule conjunct1)
  then have f: "filter (counted_free p 1704067200000000) [alpha, beta] = [alpha]"
    unfolding tc by (rule sym)
  from h3 f have "fst (fetch_free_games p env ''en-US'' ''US'' st) = Inr [alpha] \<and>
       filter (counted_free p 1704067200000000) [alpha, beta] = [alpha]" by blast
  then show ?thesis
    unfolding Let_def env_def st_def alpha_def beta_def p_def .
qed

text \<open>
  The claim as stated fails at a window whose start is a readable future instant and
  whose end is unreadable: the start is neither absent nor past, so by the words of the
  claim the element has no active window, yet \<open>fetch_free_games\<close> returns it, because
  the failed parse of the end also discards the start.
\<close>

theorem unreadable_end_counterexample:
  "\<not> claimed_free
       (\<lambda>s. if s = ''2999-01-01T00:00:00+00:00'' then Some (Aware 32472144000000000 0) else None)
       1704067200000000
       \<lparr>el_title = Some ''Delta'', el_id = Some ''d'', el_items = [],
          promotionalOffers = [[\<lparr>startDate = Some ''2999-01-01T00:00:00Z'', endDate = Some ''not a date''\<rparr>]],
          upcomingPromotionalOffers = [], mappings = [], offerMappings = [],
          productSlug = None, urlSlug = None, upcomingStart = None\<rparr> \<and>
   fst (fetch_free_games
       (\<lambda>s. if s = ''2999-01-01T00:00:00+00:00'' then Some (Aware 32472144000000000 0) else None)
       \<lparr>t_lookup = 1704067200000000,
          upstream = Inr [\<lparr>el_title = Some ''Delta'', el_id = Some ''d'', el_items = [],
            promotionalOffers = [[\<lparr>startDate = Some ''2999-01-01T00:00:00Z'', endDate = Some ''not a date''\<rparr>]],
            upcomingPromotionalOffers = [], mappings = [], offerMappings = [],
            productSlug = None, urlSlug = None, upcomingStart = None\<rparr>],
          t_classify = 1704067200000000, t_store = 1704067200000000\<rparr>
       ''en-US'' ''US'' \<lparr>the_cache = Map.empty, upstream_calls = 0\<rparr>) =
     Inr [\<lparr>el_title = Some ''Delta'', el_id = Some ''d'', el_items = [],
            promotionalOffers = [[\<lparr>startDate = Some ''2999-01-01T00:00:00Z'', endDate = Some ''not a date''\<rparr>]],
            upcomingPromotionalOffers = [], mappings = [], offerMappings = [],
            productSlug = None, urlSlug = None, upcomingStart = None\<rparr>]"
proof -
  have z: "replace_Z ''2999-01-01T00:00:00Z'' = ''2999-01-01T00:00:00+00:00''"
      "replace_Z ''not a date'' = ''not a date''"
    by (simp_all add: replace_Z_def)
  show ?thesis
    by (simp add: claimed_free_def claimed_active_def read_date_def z fetch_free_games_def
        get_cached_def set_cached_def Let_def window_active_def window_bounds_def parse_date_def)
qed

text \<open>
  Claim C10. In \<open>fetch_free_games\<close>, a window one of whose dates \<^verbatim>\<open>fromisoformat\<close>
  rejects has both bounds absent and its test is true without an error; the element
  that carries it is in every result the classification returns, and the
  classification does return one when the dates that do parse are timezone-aware.
\<close>

theorem parse_failure_counts_as_active:
  assumes "parse_fails p po" and "po \<in> set offer" and "offer \<in> set (promotionalOffers el)"
    and "el \<in> set elements"
    and "fst (get_cached (t_lookup env) l c ''current'' (the_cache st)) = None"
    and "upstream env = Inr elements"
  shows "window_bounds p po = (None, None) \<and>
         window_active p (t_classify env) po = Inr True \<and>
         (\<forall>r. fst (fetch_free_games p env l c st) = Inr r \<longrightarrow> el \<in> set r) \<and>
         (list_all (aware_windows p) elements \<longrightarrow>
            (\<exists>r. fst (fetch_free_games p env l c st) = Inr r \<and> el \<in> set r))"
proof -
  have b: "window_bounds p po = (None, None)"
    using assms(1) by (rule parse_fails_bounds)
  have a: "window_active p (t_classify env) po = Inr True"
    using assms(1) by (rule parse_fails_active)
  have f: "fst (fetch_free_games p env l c st) = free_loop p (t_classify env) elements []"
    using assms(5,6) by (rule fetch_free_games_miss)
  have k: "\<forall>r. fst (fetch_free_games p env l c st) = Inr r \<longrightarrow> el \<in> set r"
    using free_loop_keeps [OF _ assms(4) assms(3) assms(2) a] f by auto
  have t: "list_all (aware_windows p) elements \<longrightarrow>
            (\<exists>r. fst (fetch_free_games p env l c st) = Inr r \<and> el \<in> set r)"
    using k f free_loop_aware [of p elements "t_classify env" "[]"] by auto
  from b a k t show ?thesis by blast
qed

theorem parse_failure_counts_as_active_witness:
  "(let p = (\<lambda>s. if s = ''2000-01-01T00:00:00+00:00'' then Some (Aware 946684800000000 0) else None);
        po = \<lparr>startDate = Some ''not a date'', endDate = Some ''2000-01-01T00:00:00Z''\<rparr>;
        el = \<lparr>el_title = Some ''Gamma'', el_id = Some ''g'', el_items = [],
               promotionalOffers = [[po]],
               upcomingPromotionalOffers = [], mappings = [], offerMappings = [],
               productSlug = None, urlSlug = None, upcomingStart = None\<rparr>;
        env = \<lparr>t_lookup = 1704067200000000, upstream = Inr [el],
                t_classify = 1704067200000000, t_store = 1704067200000000\<rparr>;
        st = \<lparr>the_cache = Map.empty, upstream_calls = 0\<rparr>
    in parse_fails p po \<and> list_all (aware_windows p) [el] \<and>
       window_active p 1704067200000000 po = Inr True \<and>
       (\<exists>r. fst (fetch_free_games p env ''en-US'' ''US'' st) = Inr r \<and> el \<in> set r))"
proof -
  define p where "p = (\<lambda>s. if s = ''2000-01-01T00:00:00+00:00''
      then Some (Aware 946684800000000 0) else None)"
  define po where "po = \<lparr>startDate = Some ''not a date'', endDate = Some ''2000-01-01T00:00:00Z''\<rparr>"
  define el where "el = \<lparr>el_title = Some ''Gamma'', el_id = Some ''g'', el_items = [],
               promotionalOffers = [[po]],
               upcomingPromotionalOffers = [], mappings = [], offerMappings = [],
               productSlug = None, urlSlug = None, upcomingStart = None\<rparr>"
  define env where "env = \<lparr>t_lookup = 1704067200000000, upstream = Inr [el],
                t_classify = 1704067200000000, t_store = 1704067200000000\<rparr>"
  define st where "st = \<lparr>the_cache = Map.empty, upstream_calls = 0\<rparr>"
  have h1: "parse_fails p po"
    by (simp add: parse_fails_def parse_date_def po_def p_def replace_Z_def)
  have h2: "po \<in> set [po]" and h3: "[po] \<in> set (promotionalOffers el)" and h4: "el \<in> set [el]"
    by (simp_all add: el_def)
  have h5: "fst (get_cached (t_lookup env) ''en-US'' ''US'' ''current'' (the_cache st)) = None"
    by (simp add: get_cached_def st_def)
  have h6: "upstream env = Inr [el]" by (simp add: env_def)
  note th = parse_failure_counts_as_active [OF h1 h2 h3 h4 h5 h6]
  have aw: "list_all (aware_windows p) [el]"
    using th by (simp add: aware_windows_def aware_window_def el_def)
  have tc: "t_classify env = 1704067200000000" by (simp add: env_def)
  from th aw h1 have "parse_fails p po \<and> list_all (aware_windows p) [el] \<and>
       window_active p 1704067200000000 po = Inr True \<and>
       (\<exists>r. fst (fetch_free_games p env ''en-US'' ''US'' st) = Inr r \<and> el \<in> set r)"
    unfolding tc by blast
  then show ?thesis
    unfolding Let_def env_def st_def el_def po_def p_def .
qed

section \<open>Properties of the classification of upcoming offers\<close>

lemma fetch_upcoming_games_miss:
  "fst (get_cached (t_lookup env) l c ''upcoming'' (the_cache st)) = None \<Longrightarrow>
   upstream env = Inr elements \<Longrightarrow>
   fst (fetch_upcoming_games p fmt env l c st) =
     map_sum id (sort_key upcoming_key) (upcoming_loop p fmt (t_classify env) elements [])"
  by (cases "get_cached (t_lookup env) l c ''upcoming'' (the_cache st)")
     (auto simp: fetch_upcoming_games_def Let_def split: sum.splits)

lemma fetch_upcoming_games_sorted_by_key:
  assumes "fst (get_cached (t_lookup env) l c ''upcoming'' (the_cache st)) = None"
    and "upstream env = Inr elements"
    and "upcoming_loop p fmt (t_classify env) elements [] = Inr upcoming"
  shows "fst (fetch_upcoming_games p fmt env l c st) = Inr (sort_key upcoming_key upcoming) \<and>
         sorted (map upcoming_key (sort_key upcoming_key upcoming)) \<and>
         filter (\<lambda>e. upcoming_key e = k) (sort_key upcoming_key upcoming) =
           filter (\<lambda>e. upcoming_key e = k) upcoming"
  using fetch_upcoming_games_miss [OF assms(1,2), of p fmt] assms(3)
  by (simp add: sort_key_stable)

text \<open>
  Claim C3 at a catalog whose two start dates carry different UTC offsets. The parser
  and the formatter are Python's at the two dates: \<^verbatim>\<open>2030-03-01T00:00:00+05:00\<close> is the
  instant 1898535600 s, \<^verbatim>\<open>2030-02-28T20:00:00Z\<close> the later instant 1898539200 s, and
  \<^verbatim>\<open>isoformat\<close> gives each back with its own offset. \<open>fetch_upcoming_games\<close> sorts by
  that text, so it returns \<open>B\<close> before \<open>A\<close> although the soonest start of \<open>A\<close> is the
  earlier one: the result is not sorted by \<open>soonest_start\<close>.
\<close>

theorem fetch_upcoming_games_text_order:
  "(let p = (\<lambda>s. if s = ''2030-03-01T00:00:00+05:00'' then Some (Aware 1898535600000000 18000)
                  else if s = ''2030-02-28T20:00:00+00:00'' then Some (Aware 1898539200000000 0)
                  else None);
        fmt = (\<lambda>d. if d = Aware 1898535600000000 18000 then ''2030-03-01T00:00:00+05:00''
                    else if d = Aware 1898539200000000 0 then ''2030-02-28T20:00:00+00:00''
                    else []);
        a = \<lparr>el_title = Some ''A'', el_id = Some ''a'', el_items = [],
              promotionalOffers = [],
              upcomingPromotionalOffers = [[\<lparr>startDate = Some ''2030-03-01T00:00:00+05:00'', endDate = None\<rparr>]],
              mappings = [], offerMappings = [],
              productSlug = None, urlSlug = None, upcomingStart = None\<rparr>;
        b = \<lparr>el_title = Some ''B'', el_id = Some ''b'', el_items = [],
              promotionalOffers = [],
              upcomingPromotionalOffers = [[\<lparr>startDate = Some ''2030-02-28T20:00:00Z'', endDate = None\<rparr>]],
              mappings = [], offerMappings = [],
              productSlug = None, urlSlug = None, upcomingStart = None\<rparr>;
        env = \<lparr>t_lookup = 1704067200000000, upstream = Inr [a, b],
                t_classify = 1704067200000000, t_store = 1704067200000000\<rparr>;
        st = \<lparr>the_cache = Map.empty, upstream_calls = 0\<rparr>;
        a' = a\<lparr>upcomingStart := Some ''2030-03-01T00:00:00+05:00''\<rparr>;
        b' = b\<lparr>upcomingStart := Some ''2030-02-28T20:00:00+00:00''\<rparr>
    in fst (fetch_upcoming_games p fmt env ''en-US'' ''US'' st) = Inr [b', a'] \<and>
       soonest_start p 1704067200000000 b' = Some 1898539200000000 \<and>
       soonest_start p 1704067200000000 a' = Some 1898535600000000 \<and>
       \<not> sorted (map (\<lambda>e. the (soonest_start p 1704067200000000 e)) [b', a']))"
proof -
  have z: "replace_Z ''2030-02-28T20:00:00Z'' = ''2030-02-28T20:00:00+00:00''"
     "replace_Z ''2030-03-01T00:00:00+05:00'' = ''2030-03-01T00:00:00+05:00''"
    by (simp_all add: replace_Z_def)
  have le: "\<not> ''2030-03-01T00:00:00+05:00'' \<le> ''2030-02-28T20:00:00+00:00''"
    by (simp add: less_eq_char_def less_char_def)
  show ?thesis
    unfolding Let_def
    by (simp add: Let_def fetch_upcoming_games_def get_cached_def set_cached_def upcoming_step_def
        upcoming_start_def parse_date_def z utc_now_def upcoming_key_def or_empty_def le
        soonest_start_def future_starts_def)
qed

section \<open>Properties of the store URL\<close>

lemma first_producthome_find:
  "first_producthome ms = map_option mappingSlug (List.find is_producthome ms)"
  by (induction ms) auto

lemma first_slug_find:
  "first_slug ms = map_option mappingSlug (List.find (\<lambda>m. truthy (mappingSlug m)) ms)"
  by (induction ms) auto

lemma lstrip_slash_id: "\<not> startswith s ''/'' \<Longrightarrow> lstrip_slash s = s"
  by (cases s) (auto simp: lstrip_slash_def startswith_def)

text \<open>
  Claim C8, as amended. \<open>build_store_url\<close> takes the first source that applies, in the
  order: the first mapping whose page type is \<^verbatim>\<open>producthome\<close> (case-insensitively) with a
  non-empty slug, the first mapping with a non-empty slug, the first offer mapping with
  a non-empty slug, \<open>productSlug\<close>, \<open>urlSlug\<close>, the storefront root; so a product-home
  mapping makes \<open>productSlug\<close> irrelevant. The slug is first stripped of its leading
  slashes; what remains is used as it is when it begins with \<^verbatim>\<open>p/\<close>, \<^verbatim>\<open>bundles/\<close> or
  \<^verbatim>\<open>store/\<close>, and is prefixed with \<^verbatim>\<open>p/\<close> otherwise. A slug that itself begins with one of
  the three is used unchanged.
\<close>

theorem build_store_url_priority:
  "build_store_url el locale =
     (case List.find is_producthome (mappings el) of
        Some m \<Rightarrow> slug_to_url locale (mappingSlug m)
      | None \<Rightarrow>
     (case List.find (\<lambda>m. truthy (mappingSlug m)) (mappings el) of
        Some m \<Rightarrow> slug_to_url locale (mappingSlug m)
      | None \<Rightarrow>
     (case List.find (\<lambda>m. truthy (mappingSlug m)) (offerMappings el) of
        Some m \<Rightarrow> slug_to_url locale (mappingSlug m)
      | None \<Rightarrow>
     (if truthy (productSlug el) then slug_to_url locale (productSlug el)
      else if truthy (urlSlug el) then slug_to_url locale (urlSlug el)
      else ''https://store.epicgames.com/'')))) \<and>
   (list_ex is_producthome (mappings el) \<longrightarrow>
      build_store_url el locale = build_store_url (el\<lparr>productSlug := ps\<rparr>) locale) \<and>
   slug_to_url locale (Some s) =
     ''https://store.epicgames.com/'' @ locale @ ''/'' @
       (if path_qualified (lstrip_slash s) then lstrip_slash s else ''p/'' @ lstrip_slash s) \<and>
   (path_qualified s \<longrightarrow> slug_to_url locale (Some s) = ''https://store.epicgames.com/'' @ locale @ ''/'' @ s)"
proof -
  have a: "build_store_url el locale =
     (case List.find is_producthome (mappings el) of
        Some m \<Rightarrow> slug_to_url locale (mappingSlug m)
      | None \<Rightarrow>
     (case List.find (\<lambda>m. truthy (mappingSlug m)) (mappings el) of
        Some m \<Rightarrow> slug_to_url locale (mappingSlug m)
      | None \<Rightarrow>
     (case List.find (\<lambda>m. truthy (mappingSlug m)) (offerMappings el) of
        Some m \<Rightarrow> slug_to_url locale (mappingSlug m)
      | None \<Rightarrow>
     (if truthy (productSlug el) then slug_to_url locale (productSlug el)
      else if truthy (urlSlug el) then slug_to_url locale (urlSlug el)
      else ''https://store.epicgames.com/''))))"
    by (simp add: build_store_url_def first_producthome_find first_slug_find split: option.splits)
  have b: "list_ex is_producthome (mappings el) \<longrightarrow>
      build_store_url el locale = build_store_url (el\<lparr>productSlug := ps\<rparr>) locale"
  proof
    assume "list_ex is_producthome (mappings el)"
    then obtain m where "List.find is_producthome (mappings el) = Some m"
      by (cases "List.find is_producthome (mappings el)") (auto simp: find_None_iff list_ex_iff)
    then show "build_store_url el locale = build_store_url (el\<lparr>productSlug := ps\<rparr>) locale"
      by (simp add: build_store_url_def first_producthome_find)
  qed
  have c: "slug_to_url locale (Some s) =
     ''https://store.epicgames.com/'' @ locale @ ''/'' @
       (if path_qualified (lstrip_slash s) then lstrip_slash s else ''p/'' @ lstrip_slash s)"
    by (simp add: slug_to_url_def or_empty_def Let_def)
  have d: "path_qualified s \<longrightarrow> slug_to_url locale (Some s) = ''https://store.epicgames.com/'' @ locale @ ''/'' @ s"
  proof
    assume q: "path_qualified s"
    then have "\<not> startswith s ''/''"
      by (cases s) (auto simp: path_qualified_def startswith_def)
    then have "lstrip_slash s = s" by (rule lstrip_slash_id)
    with q c show "slug_to_url locale (Some s) = ''https://store.epicgames.com/'' @ locale @ ''/'' @ s"
      by simp
  qed
  from a b c d show ?thesis by blast
qed

theorem build_store_url_priority_witness:
  "(let el = \<lparr>el_title = Some ''Alpha'', el_id = Some ''a'', el_items = [],
               promotionalOffers = [], upcomingPromotionalOffers = [],
               mappings = [\<lparr>pageType = Some ''offer'', mappingSlug = Some ''alpha-offer''\<rparr>,
                           \<lparr>pageType = Some ''productHome'', mappingSlug = Some ''bundles/alpha''\<rparr>],
               offerMappings = [],
               productSlug = Some ''alpha-product'', urlSlug = None, upcomingStart = None\<rparr>
    in list_ex is_producthome (mappings el) \<and> path_qualified ''bundles/alpha'' \<and>
       build_store_url el ''en-US'' = ''https://store.epicgames.com/en-US/bundles/alpha'' \<and>
       build_store_url (el\<lparr>productSlug := None\<rparr>) ''en-US'' =
         ''https://store.epicgames.com/en-US/bundles/alpha'')"
proof -
  define el where "el = \<lparr>el_title = Some ''Alpha'', el_id = Some ''a'', el_items = [],
               promotionalOffers = [], upcomingPromotionalOffers = [],
               mappings = [\<lparr>pageType = Some ''offer'', mappingSlug = Some ''alpha-offer''\<rparr>,
                           \<lparr>pageType = Some ''productHome'', mappingSlug = Some ''bundles/alpha''\<rparr>],
               offerMappings = [],
               productSlug = Some ''alpha-product'', urlSlug = None, upcomingStart = None\<rparr>"
  have lo: "lower ''productHome'' = ''producthome''" "lower ''offer'' = ''offer''"
    by code_simp+
  have h1: "list_ex is_producthome (mappings el)"
    by (simp add: el_def is_producthome_def or_empty_def truthy_def lo)
  have h2: "path_qualified ''bundles/alpha''"
    by (simp add: path_qualified_def startswith_def)
  have f: "List.find is_producthome (mappings el) =
      Some \<lparr>pageType = Some ''productHome'', mappingSlug = Some ''bundles/alpha''\<rparr>"
    by (simp add: el_def is_producthome_def or_empty_def truthy_def lo)
  note th = build_store_url_priority [of el "''en-US''" None "''bundles/alpha''"]
  from th h2 have "slug_to_url ''en-US'' (Some ''bundles/alpha'') =
      ''https://store.epicgames.com/'' @ ''en-US'' @ ''/'' @ ''bundles/alpha''" by blast
  then have u: "slug_to_url ''en-US'' (Some ''bundles/alpha'') =
      ''https://store.epicgames.com/en-US/bundles/alpha''" by simp
  have "build_store_url el ''en-US'' = slug_to_url ''en-US'' (Some ''bundles/alpha'')"
    using th [THEN conjunct1] by (simp add: f)
  with u have r1: "build_store_url el ''en-US'' = ''https://store.epicgames.com/en-US/bundles/alpha''"
    by simp
  from th h1 have "build_store_url el ''en-US'' = build_store_url (el\<lparr>productSlug := None\<rparr>) ''en-US''"
    by blast
  with r1 have r2: "build_store_url (el\<lparr>productSlug := None\<rparr>) ''en-US'' =
         ''https://store.epicgames.com/en-US/bundles/alpha''" by simp
  from h1 h2 r1 r2 have "list_ex is_producthome (mappings el) \<and> path_qualified ''bundles/alpha'' \<and>
       build_store_url el ''en-US'' = ''https://store.epicgames.com/en-US/bundles/alpha'' \<and>
       build_store_url (el\<lparr>productSlug := None\<rparr>) ''en-US'' =
         ''https://store.epicgames.com/en-US/bundles/alpha''" by blast
  then show ?thesis unfolding Let_def el_def .
qed

text \<open>
  The claim as stated fails at a slug with a leading slash: \<^verbatim>\<open>/bundles/alpha\<close> does not
  begin with \<^verbatim>\<open>p/\<close>, \<^verbatim>\<open>bundles/\<close> or \<^verbatim>\<open>store/\<close>, yet it is not prefixed with \<^verbatim>\<open>p/\<close>.
\<close>

theorem slug_leading_slash_counterexample:
  "\<not> path_qualified ''/bundles/alpha'' \<and>
   build_store_url \<lparr>el_title = Some ''Alpha'', el_id = Some ''a'', el_items = [],
       promotionalOffers = [], upcomingPromotionalOffers = [], mappings = [], offerMappings = [],
       productSlug = Some ''/bundles/alpha'', urlSlug = None, upcomingStart = None\<rparr> ''en-US''
     = ''https://store.epicgames.com/en-US/bundles/alpha'' \<and>
   build_store_url \<lparr>el_title = Some ''Alpha'', el_id = Some ''a'', el_items = [],
       promotionalOffers = [], upcomingPromotionalOffers = [], mappings = [], offerMappings = [],
       productSlug = Some ''/bundles/alpha'', urlSlug = None, upcomingStart = None\<rparr> ''en-US''
     \<noteq> ''https://store.epicgames.com/en-US/p//bundles/alpha''"
  by (simp add: build_store_url_def slug_to_url_def truthy_def or_empty_def lstrip_slash_def
      path_qualified_def startswith_def)

section \<open>Properties of the notification scheduler\<close>

lemma notify_loop_Cons:
  "notify_loop send fi ((oid, m) # rest) b =
     (let hit = (oid \<in> set fi \<and> \<not> notified m);
          ok = send oid (notify_text oid m);
          r = notify_loop send fi rest (if hit \<and> ok then True else b)
      in ((oid, if hit \<and> ok then m\<lparr>notified := True\<rparr> else m) # fst r,
          fst (snd r),
          (if hit then [(oid, notify_text oid m, ok)] else []) @ snd (snd r)))"
  by (auto simp: split_beta Let_def)

lemma notify_loop_keys: "map fst (fst (notify_loop send fi subs b)) = map fst subs"
  by (induction subs arbitrary: b) (auto simp: notify_loop_Cons Let_def simp del: notify_loop.simps(2))

lemma notify_loop_lookup:
  "map_of (fst (notify_loop send fi subs b)) oid =
     map_option (\<lambda>m. if oid \<in> set fi \<and> \<not> notified m \<and> send oid (notify_text oid m)
                      then m\<lparr>notified := True\<rparr> else m)
                (map_of subs oid)"
  by (induction subs arbitrary: b) (auto simp: notify_loop_Cons Let_def simp del: notify_loop.simps(2))

lemma notify_loop_sent_True: "fst (snd (notify_loop send fi xs True))"
  by (induction xs) (auto simp: notify_loop_Cons Let_def simp del: notify_loop.simps(2))

lemma notify_loop_unsent:
  "\<not> fst (snd (notify_loop send fi subs b)) \<Longrightarrow> fst (notify_loop send fi subs b) = subs"
proof (induction subs arbitrary: b)
  case Nil
  then show ?case by simp
next
  case (Cons a subs)
  obtain oid m where a: "a = (oid, m)" by (cases a)
  show ?case
  proof (cases "oid \<in> set fi \<and> \<not> notified m \<and> send oid (notify_text oid m)")
    case True
    with Cons.prems a notify_loop_sent_True [of send fi subs] show ?thesis
      by (simp add: notify_loop_Cons Let_def del: notify_loop.simps(2))
  next
    case False
    with Cons.prems a have "\<not> fst (snd (notify_loop send fi subs b))"
      by (auto simp: notify_loop_Cons Let_def simp del: notify_loop.simps(2))
    from Cons.IH [OF this] False a show ?thesis
      by (auto simp: notify_loop_Cons Let_def simp del: notify_loop.simps(2))
  qed
qed

lemma notify_loop_calls_keys:
  "x \<in> set (snd (snd (notify_loop send fi subs b))) \<Longrightarrow> fst x \<in> fst ` set subs"
proof (induction subs arbitrary: b)
  case Nil
  then show ?case by simp
next
  case (Cons a subs)
  obtain oid m where a: "a = (oid, m)" by (cases a)
  let ?b = "if (oid \<in> set fi \<and> \<not> notified m) \<and> send oid (notify_text oid m) then True else b"
  from Cons.prems a have "fst x = oid \<or> x \<in> set (snd (snd (notify_loop send fi subs ?b)))"
    by (auto simp: notify_loop_Cons Let_def simp del: notify_loop.simps(2) split: if_splits)
  then show ?case
  proof
    assume "fst x = oid"
    with a show ?thesis by simp
  next
    assume "x \<in> set (snd (snd (notify_loop send fi subs ?b)))"
    from Cons.IH [OF this] show ?thesis by simp
  qed
qed

lemma notify_loop_calls:
  "distinct (map fst subs) \<Longrightarrow>
   filter (\<lambda>x. fst x = oid) (snd (snd (notify_loop send fi subs b))) =
     (case map_of subs oid of
        None \<Rightarrow> []
      | Some m \<Rightarrow>
          if oid \<in> set fi \<and> \<not> notified m
          then [(oid, notify_text oid m, send oid (notify_text oid m))] else [])"
proof (induction subs arbitrary: b)
  case Nil
  then show ?case by simp
next
  case (Cons a subs)
  obtain k m where a: "a = (k, m)" by (cases a)
  from Cons.prems a have d: "distinct (map fst subs)" and nk: "k \<notin> fst ` set subs" by auto
  let ?b = "if (k \<in> set fi \<and> \<not> notified m) \<and> send k (notify_text k m) then True else b"
  show ?case
  proof (cases "k = oid")
    case True
    have "filter (\<lambda>x. fst x = oid) (snd (snd (notify_loop send fi subs ?b))) = []"
      unfolding filter_empty_conv
    proof
      fix x assume "x \<in> set (snd (snd (notify_loop send fi subs ?b)))"
      from notify_loop_calls_keys [OF this] nk True show "\<not> fst x = oid" by auto
    qed
    with True a show ?thesis
      by (simp add: notify_loop_Cons Let_def del: notify_loop.simps(2))
  next
    case False
    with a Cons.IH [OF d, of ?b] show ?thesis
      by (simp add: notify_loop_Cons Let_def del: notify_loop.simps(2))
  qed
qed


lemma process_chat_log:
  "snd (process_chat env snapshot c st) =
     snd st @ map (\<lambda>(oid, text, ok). (c, oid, text, ok))
       (snd (snd (notify_loop (delivered env c) (tick_free_ids env c) (get_dict snapshot c) False)))"
  by (simp add: process_chat_def tick_free_ids_def Let_def split_beta)

lemma process_chat_dict:
  assumes "get_dict (offer_subs (load_json (fst st) default_document)) c = get_dict snapshot c"
  shows "get_dict (offer_subs (load_json (fst (process_chat env snapshot c st)) default_document)) c' =
     (if c' = c
      then fst (notify_loop (delivered env c) (tick_free_ids env c) (get_dict snapshot c) False)
      else get_dict (offer_subs (load_json (fst st) default_document)) c')"
proof (cases "fst (snd (notify_loop (delivered env c) (tick_free_ids env c) (get_dict snapshot c) False))")
  case True
  then show ?thesis
    by (simp add: process_chat_def tick_free_ids_def Let_def split_beta get_dict_update_other)
next
  case False
  from notify_loop_unsent [OF False] False assms show ?thesis
    by (simp add: process_chat_def tick_free_ids_def Let_def split_beta)
qed

lemma list_all_update:
  "list_all P al \<Longrightarrow> P (k, v) \<Longrightarrow> list_all P (AList.update k v al)"
  by (induction al) auto

lemma get_dict_distinct:
  "list_all (\<lambda>(c, subs). distinct (map fst subs)) d \<Longrightarrow> distinct (map fst (get_dict d c))"
  by (auto simp: get_dict_def list_all_iff split: option.splits dest!: map_of_SomeD)

lemma process_chat_wf:
  assumes "list_all (\<lambda>(c, subs). distinct (map fst subs)) snapshot"
    and "wf_document (load_json (fst st) default_document)"
  shows "wf_document (load_json (fst (process_chat env snapshot c st)) default_document)"
proof (cases "fst (snd (notify_loop (delivered env c) (tick_free_ids env c) (get_dict snapshot c) False))")
  case True
  have "distinct (map fst (fst (notify_loop (delivered env c) (tick_free_ids env c)
      (get_dict snapshot c) False)))"
    using get_dict_distinct [OF assms(1), of c] by (simp add: notify_loop_keys)
  with True assms(2) show ?thesis
    by (simp add: process_chat_def tick_free_ids_def Let_def split_beta wf_document_def
        distinct_update list_all_update)
next
  case False
  with assms(2) show ?thesis
    by (simp add: process_chat_def tick_free_ids_def Let_def split_beta)
qed

lemma fold_process_chat_wf:
  assumes "list_all (\<lambda>(c, subs). distinct (map fst subs)) snapshot"
  shows "wf_document (load_json (fst st) default_document) \<Longrightarrow>
         wf_document (load_json (fst (fold (process_chat env snapshot) chats st)) default_document)"
proof (induction chats arbitrary: st)
  case Nil
  then show ?case by simp
next
  case (Cons c chats)
  from process_chat_wf [OF assms Cons.prems]
  have "wf_document (load_json (fst (process_chat env snapshot c st)) default_document)" .
  from Cons.IH [OF this] show ?case by simp
qed

lemma fold_process_chat_dict:
  assumes "distinct chats"
    and "\<forall>c \<in> set chats. get_dict (offer_subs (load_json (fst st) default_document)) c = get_dict snapshot c"
  shows "get_dict (offer_subs (load_json (fst (fold (process_chat env snapshot) chats st)) default_document)) c' =
     (if c' \<in> set chats
      then fst (notify_loop (delivered env c') (tick_free_ids env c') (get_dict snapshot c') False)
      else get_dict (offer_subs (load_json (fst st) default_document)) c')"
  using assms
proof (induction chats arbitrary: st)
  case Nil
  then show ?case by simp
next
  case (Cons c chats)
  let ?st = "process_chat env snapshot c st"
  have here: "get_dict (offer_subs (load_json (fst st) default_document)) c = get_dict snapshot c"
    using Cons.prems(2) by simp
  have d: "distinct chats" and notin: "c \<notin> set chats" using Cons.prems(1) by simp_all
  have rest: "\<forall>x \<in> set chats. get_dict (offer_subs (load_json (fst ?st) default_document)) x = get_dict snapshot x"
    using Cons.prems(2) notin by (auto simp: process_chat_dict [OF here])
  from Cons.IH [OF d rest] notin show ?case
    by (auto simp: process_chat_dict [OF here])
qed

lemma sends_for_append: "sends_for c oid (xs @ ys) = sends_for c oid xs @ sends_for c oid ys"
  by (simp add: sends_for_def)

lemma sends_for_tagged:
  "sends_for c oid (map (Pair c') calls) =
     (if c' = c then map (Pair c) (filter (\<lambda>x. fst x = oid) calls) else [])"
  by (induction calls) (auto simp: sends_for_def)

lemma fold_process_chat_log:
  assumes "distinct chats"
  shows "sends_for c oid (snd (fold (process_chat env snapshot) chats st)) =
     sends_for c oid (snd st) @
     (if c \<in> set chats
      then map (\<lambda>(oid', text, ok). (c, oid', text, ok))
             (filter (\<lambda>x. fst x = oid)
               (snd (snd (notify_loop (delivered env c) (tick_free_ids env c) (get_dict snapshot c) False))))
      else [])"
  using assms
proof (induction chats arbitrary: st)
  case Nil
  then show ?case by simp
next
  case (Cons x chats)
  then have d: "distinct chats" and notin: "x \<notin> set chats" by simp_all
  from Cons.IH [OF d, of "process_chat env snapshot x st"] notin show ?case
    by (auto simp: process_chat_log sends_for_append sends_for_tagged)
qed

lemma get_dict_absent: "c \<notin> fst ` set d \<Longrightarrow> get_dict d c = []"
  by (cases "map_of d c") (auto simp: get_dict_def dest: map_of_SomeD intro: rev_image_eqI)

lemma wf_file_load: "wf_file f \<longleftrightarrow> wf_document (load_json f default_document)"
  by (simp add: wf_file_def load_json_def default_document_def wf_document_def split: option.splits)

lemma daily_job_record:
  "record_of (fst (daily_job env f)) c oid =
     map_option (\<lambda>m. if oid \<in> set (tick_free_ids env c) \<and> \<not> notified m \<and>
                         delivered env c oid (notify_text oid m)
                      then m\<lparr>notified := True\<rparr> else m)
                (record_of f c oid)"
proof -
  let ?D = "load_json f default_document"
  let ?chats = "remdups (chat_ids ?D @ map fst (offer_subs ?D))"
  have dj: "daily_job env f = fold (process_chat env (offer_subs ?D)) ?chats (ensure_files_exist f, [])"
    by (simp add: daily_job_def Let_def)
  have g: "get_dict (offer_subs (load_json (fst (daily_job env f)) default_document)) c =
     (if c \<in> set ?chats
      then fst (notify_loop (delivered env c) (tick_free_ids env c) (get_dict (offer_subs ?D) c) False)
      else get_dict (offer_subs ?D) c)"
    unfolding dj by (subst fold_process_chat_dict) simp_all
  show ?thesis
  proof (cases "c \<in> set ?chats")
    case True
    with g show ?thesis by (simp add: record_of_def notify_loop_lookup)
  next
    case False
    then have "c \<notin> fst ` set (offer_subs ?D)" by auto
    then have "get_dict (offer_subs ?D) c = []" by (rule get_dict_absent)
    with False g show ?thesis by (simp add: record_of_def)
  qed
qed

lemma daily_job_sends:
  assumes "wf_file f"
  shows "sends_for c oid (snd (daily_job env f)) =
     (case record_of f c oid of
        None \<Rightarrow> []
      | Some m \<Rightarrow>
          if oid \<in> set (tick_free_ids env c) \<and> \<not> notified m
          then [(c, oid, notify_text oid m, delivered env c oid (notify_text oid m))] else [])"
proof -
  let ?D = "load_json f default_document"
  let ?chats = "remdups (chat_ids ?D @ map fst (offer_subs ?D))"
  have dj: "daily_job env f = fold (process_chat env (offer_subs ?D)) ?chats (ensure_files_exist f, [])"
    by (simp add: daily_job_def Let_def)
  have wf: "wf_document ?D" using assms by (simp add: wf_file_load)
  have dd: "distinct (map fst (get_dict (offer_subs ?D) c))"
    using wf by (rule wf_get_dict)
  have l: "sends_for c oid (snd (daily_job env f)) =
     (if c \<in> set ?chats
      then map (\<lambda>(oid', text, ok). (c, oid', text, ok))
             (filter (\<lambda>x. fst x = oid)
               (snd (snd (notify_loop (delivered env c) (tick_free_ids env c)
                  (get_dict (offer_subs ?D) c) False))))
      else [])"
    unfolding dj by (subst fold_process_chat_log) (simp_all add: sends_for_def)
  show ?thesis
  proof (cases "c \<in> set ?chats")
    case True
    with l show ?thesis
      by (simp add: notify_loop_calls [OF dd] record_of_def split: option.splits)
  next
    case False
    then have "c \<notin> fst ` set (offer_subs ?D)" by auto
    then have "get_dict (offer_subs ?D) c = []" by (rule get_dict_absent)
    with False l show ?thesis by (simp add: record_of_def)
  qed
qed

lemma daily_job_wf:
  assumes "wf_file f"
  shows "wf_file (fst (daily_job env f))"
proof -
  let ?D = "load_json f default_document"
  have wf: "wf_document ?D" using assms by (simp add: wf_file_load)
  then have la: "list_all (\<lambda>(c, subs). distinct (map fst subs)) (offer_subs ?D)"
    by (simp add: wf_document_def)
  show ?thesis
    unfolding wf_file_load daily_job_def Let_def
    by (rule fold_process_chat_wf) (simp_all add: la wf)
qed

lemma run_jobs_keep_notified:
  "wf_file f \<Longrightarrow> record_of f c oid = Some m \<Longrightarrow> notified m \<Longrightarrow>
   record_of (fst (run_jobs envs f)) c oid = Some m \<and> sends_for c oid (snd (run_jobs envs f)) = []"
proof (induction envs arbitrary: f)
  case Nil
  then show ?case by (simp add: sends_for_def)
next
  case (Cons env envs)
  from Cons.prems have r: "record_of (fst (daily_job env f)) c oid = Some m"
    by (simp add: daily_job_record)
  from Cons.prems have s: "sends_for c oid (snd (daily_job env f)) = []"
    by (simp add: daily_job_sends)
  from Cons.prems(1) have w: "wf_file (fst (daily_job env f))" by (rule daily_job_wf)
  from Cons.IH [OF w r Cons.prems(3)] s show ?case
    by (simp add: split_beta sends_for_append)
qed


text \<open>
  Claim C1. For a subscription in the watching state, one run of \<open>daily_job\<close> sets
  \<open>notified\<close> exactly when the offer id is among the ids of the currently free offers
  and the delivery of its message succeeds, and leaves the rest of the record as it
  was; the run tries the delivery once when the id is free and not at all otherwise, so
  a failed delivery leaves the record watching and the next run tries again. A record
  whose \<open>notified\<close> is true is left unchanged by every sequence of runs, whatever the
  free offers and the deliveries of those runs are, and none of those runs sends its
  notification again.
\<close>

theorem notification_monotonic:
  assumes "wf_file f" and "record_of f c oid = Some m"
  shows "(\<not> notified m \<longrightarrow>
            (\<exists>m'. record_of (fst (daily_job env f)) c oid = Some m' \<and>
                  (notified m' \<longleftrightarrow>
                     oid \<in> set (tick_free_ids env c) \<and> delivered env c oid (notify_text oid m)) \<and>
                  title m' = title m \<and> pageSlug m' = pageSlug m) \<and>
            sends_for c oid (snd (daily_job env f)) =
              (if oid \<in> set (tick_free_ids env c)
               then [(c, oid, notify_text oid m, delivered env c oid (notify_text oid m))]
               else [])) \<and>
         (notified m \<longrightarrow>
            (\<forall>envs. record_of (fst (run_jobs envs f)) c oid = Some m \<and>
                    sends_for c oid (snd (run_jobs envs f)) = []))"
proof (intro conjI impI allI)
  assume "\<not> notified m"
  with assms show "\<exists>m'. record_of (fst (daily_job env f)) c oid = Some m' \<and>
                  (notified m' \<longleftrightarrow>
                     oid \<in> set (tick_free_ids env c) \<and> delivered env c oid (notify_text oid m)) \<and>
                  title m' = title m \<and> pageSlug m' = pageSlug m"
    by (simp add: daily_job_record)
next
  assume "\<not> notified m"
  with assms show "sends_for c oid (snd (daily_job env f)) =
              (if oid \<in> set (tick_free_ids env c)
               then [(c, oid, notify_text oid m, delivered env c oid (notify_text oid m))]
               else [])"
    by (simp add: daily_job_sends)
next
  fix envs
  assume "notified m"
  with assms run_jobs_keep_notified [of f c oid m envs]
  show "record_of (fst (run_jobs envs f)) c oid = Some m"
    and "sends_for c oid (snd (run_jobs envs f)) = []"
    by simp_all
qed

theorem notification_monotonic_witness:
  "(let f = Some \<lparr>chat_ids = [], users = [],
             offer_subs = [(7, [(''o1'', \<lparr>title = ''Alpha'', pageSlug = ''alpha'', notified = False\<rparr>)])]\<rparr>;
        el = \<lparr>el_title = Some ''Alpha'', el_id = Some ''o1'', el_items = [],
               promotionalOffers = [], upcomingPromotionalOffers = [], mappings = [],
               offerMappings = [], productSlug = None, urlSlug = None, upcomingStart = None\<rparr>;
        ok = \<lparr>current_free = (\<lambda>c. Inr [el]), delivered = (\<lambda>c oid text. True)\<rparr>;
        failing = \<lparr>current_free = (\<lambda>c. Inr [el]), delivered = (\<lambda>c oid text. False)\<rparr>;
        gone = \<lparr>current_free = (\<lambda>c. Inl UpstreamError), delivered = (\<lambda>c oid text. True)\<rparr>
    in wf_file f \<and>
       map_option notified (record_of f 7 ''o1'') = Some False \<and>
       map_option notified (record_of (fst (daily_job failing f)) 7 ''o1'') = Some False \<and>
       length (sends_for 7 ''o1'' (snd (daily_job failing f))) = 1 \<and>
       map_option notified (record_of (fst (daily_job ok f)) 7 ''o1'') = Some True \<and>
       length (sends_for 7 ''o1'' (snd (daily_job ok f))) = 1 \<and>
       map_option notified
         (record_of (fst (run_jobs [gone, ok, ok] (fst (daily_job ok f)))) 7 ''o1'') = Some True \<and>
       sends_for 7 ''o1'' (snd (run_jobs [gone, ok, ok] (fst (daily_job ok f)))) = [])"
proof -
  define m where "m = \<lparr>title = ''Alpha'', pageSlug = ''alpha'', notified = False\<rparr>"
  define f where "f = Some \<lparr>chat_ids = [], users = [], offer_subs = [(7, [(''o1'', m)])]\<rparr>"
  define el where "el = \<lparr>el_title = Some ''Alpha'', el_id = Some ''o1'', el_items = [],
               promotionalOffers = [], upcomingPromotionalOffers = [], mappings = [],
               offerMappings = [], productSlug = None, urlSlug = None, upcomingStart = None\<rparr>"
  define ok where "ok = \<lparr>current_free = (\<lambda>c::int. Inr [el] :: py_error + element list),
      delivered = (\<lambda>(c::int) (oid::string) (text::string). True)\<rparr>"
  define failing where "failing = \<lparr>current_free = (\<lambda>c::int. Inr [el] :: py_error + element list),
      delivered = (\<lambda>(c::int) (oid::string) (text::string). False)\<rparr>"
  define gone where "gone = \<lparr>current_free = (\<lambda>c::int. Inl UpstreamError :: py_error + element list),
      delivered = (\<lambda>(c::int) (oid::string) (text::string). True)\<rparr>"
  have wf: "wf_file f"
    by (simp add: wf_file_def wf_document_def f_def)
  have r: "record_of f 7 ''o1'' = Some m"
    by (simp add: record_of_def f_def load_json_def get_dict_def)
  have w: "\<not> notified m" by (simp add: m_def)
  have ids: "tick_free_ids ok 7 = [''o1'']" "tick_free_ids failing 7 = [''o1'']"
    by (simp_all add: tick_free_ids_def free_ids_of_def ok_def failing_def List.map_filter_def
        get_offer_id_def truthy_def el_def)
  note fl = notification_monotonic [OF wf r, of failing]
  note su = notification_monotonic [OF wf r, of ok]
  from fl w ids have a: "map_option notified (record_of (fst (daily_job failing f)) 7 ''o1'') = Some False"
    by (auto simp: failing_def)
  from fl w ids have a': "length (sends_for 7 ''o1'' (snd (daily_job failing f))) = 1"
    by simp
  from su w ids obtain m' where m': "record_of (fst (daily_job ok f)) 7 ''o1'' = Some m'" "notified m'"
    by (auto simp: ok_def)
  then have b: "map_option notified (record_of (fst (daily_job ok f)) 7 ''o1'') = Some True"
    by simp
  from su w ids have b': "length (sends_for 7 ''o1'' (snd (daily_job ok f))) = 1"
    by simp
  have wf': "wf_file (fst (daily_job ok f))" using wf by (rule daily_job_wf)
  from notification_monotonic [OF wf' m'(1)] m'(2)
  have k: "record_of (fst (run_jobs [gone, ok, ok] (fst (daily_job ok f)))) 7 ''o1'' = Some m'"
    and c': "sends_for 7 ''o1'' (snd (run_jobs [gone, ok, ok] (fst (daily_job ok f)))) = []"
    by blast+
  from k m'(2) have c: "map_option notified
         (record_of (fst (run_jobs [gone, ok, ok] (fst (daily_job ok f)))) 7 ''o1'') = Some True"
    by simp
  have z: "map_option notified (record_of f 7 ''o1'') = Some False"
    using r w by simp
  from wf z a a' b b' c c' have "wf_file f \<and>
       map_option notified (record_of f 7 ''o1'') = Some False \<and>
       map_option notified (record_of (fst (daily_job failing f)) 7 ''o1'') = Some False \<and>
       length (sends_for 7 ''o1'' (snd (daily_job failing f))) = 1 \<and>
       map_option notified (record_of (fst (daily_job ok f)) 7 ''o1'') = Some True \<and>
       length (sends_for 7 ''o1'' (snd (daily_job ok f))) = 1 \<and>
       map_option notified
         (record_of (fst (run_jobs [gone, ok, ok] (fst (daily_job ok f)))) 7 ''o1'') = Some True \<and>
       sends_for 7 ''o1'' (snd (run_jobs [gone, ok, ok] (fst (daily_job ok f)))) = []"
    by blast
  then show ?thesis
    unfolding Let_def f_def m_def ok_def failing_def gone_def el_def .
qed

section \<open>Properties of the media resolver\<close>

lemma keeps_refl: "keeps acc acc"
  by (simp add: keeps_def)

lemma keeps_trans: "keeps a b \<Longrightarrow> keeps b c \<Longrightarrow> keeps a c"
  by (auto simp: keeps_def)

lemma keeps_py_or: "keeps acc (py_or (fst acc) d, py_or (snd acc) y)"
  by (simp add: keeps_def py_or_def)

lemma scan_items_keeps: "scan_items render xs acc = Inr res \<Longrightarrow> keeps acc res"
proof (induction xs arbitrary: acc)
  case Nil
  then show ?case by (simp add: keeps_refl)
next
  case (Cons x xs)
  from Cons.prems obtain d y where
    s: "scan_items render xs (py_or (fst acc) d, py_or (snd acc) y) = Inr res"
    by (auto split: sum.splits)
  from keeps_py_or Cons.IH [OF s] show ?case by (rule keeps_trans)
qed

lemma scan_values_keeps: "scan_values render kvs acc = Inr res \<Longrightarrow> keeps acc res"
proof (induction kvs arbitrary: acc)
  case Nil
  then show ?case by (simp add: keeps_refl)
next
  case (Cons kv kvs)
  obtain k v where kv: "kv = (k, v)" by (cases kv)
  from Cons.prems kv consider
      (skip) "scan_values render kvs acc = Inr res"
    | (merge) d y where "scan_values render kvs (py_or (fst acc) d, py_or (snd acc) y) = Inr res"
    by (cases v) (auto split: sum.splits)
  then show ?case
  proof cases
    case skip
    then show ?thesis by (rule Cons.IH)
  next
    case merge
    from keeps_py_or Cons.IH [OF merge] show ?thesis by (rule keeps_trans)
  qed
qed

lemma consider_value_keeps: "consider_value v acc = Inr res \<Longrightarrow> keeps acc res"
  by (auto simp: consider_value_def keeps_def Let_def split: if_splits)

lemma hint_provider_keeps: "keeps acc (hint_provider render obj acc)"
  by (simp add: hint_provider_def keeps_def split: option.splits)

lemma hint_youtube_field_keeps: "hint_youtube_field k obj acc = Inr res \<Longrightarrow> keeps acc res"
  by (auto simp: hint_youtube_field_def keeps_refl split: option.splits if_splits
      dest: consider_value_keeps)

lemma hint_video_field_keeps: "hint_video_field obj acc = Inr res \<Longrightarrow> keeps acc res"
  by (auto simp: hint_video_field_def keeps_refl split: option.splits if_splits
      dest: consider_value_keeps)

lemma hint_video_sources_keeps: "hint_video_sources obj acc = Inr res \<Longrightarrow> keeps acc res"
  by (auto simp: hint_video_sources_def keeps_def py_or_def
      split: option.splits json.splits sum.splits)

lemma hint_sources_keeps: "hint_sources obj acc = Inr res \<Longrightarrow> keeps acc res"
  by (auto simp: hint_sources_def keeps_def py_or_def split: option.splits sum.splits)

lemma scan_items_merge:
  "list_all2 (\<lambda>x r. scan_modules render x = Inr r) xs rs \<Longrightarrow>
   scan_items render xs acc =
     Inr (foldl py_or (fst acc) (map fst rs), foldl py_or (snd acc) (map snd rs))"
proof (induction xs rs arbitrary: acc rule: list_all2_induct)
  case Nil
  then show ?case by simp
next
  case (Cons x xs r rs)
  then show ?case by (simp add: split_beta)
qed


lemma scenario_facts:
  "strip ''https://youtu.be/abc123'' = ''https://youtu.be/abc123''"
  "lower ''https://youtu.be/abc123'' = ''https://youtu.be/abc123''"
  "is_video ''https://youtu.be/abc123'' = False"
  "is_youtube ''https://youtu.be/abc123'' = True"
  by code_simp+

lemma scenario:
  "fetch_trailer_urls render
     (Some (JObj [(''modules'', JArr [JObj [(''youTubeUrl'', JStr ''https://youtu.be/abc123'')]])])) =
   Inr (None, Some ''https://youtu.be/abc123'')"
  by (simp add: fetch_trailer_urls_def collect_candidates_def get_or_def object_hints_def
      hint_provider_def hint_youtube_field_def hint_video_field_def hint_video_sources_def
      hint_sources_def then_step_def consider_value_def scenario_facts truthy_def py_or_def
      Let_def)

lemma w1: "scan_modules (\<lambda>j. []) (JObj [(''videoUrl'', JStr ''https://cdn.example/a.mp4'')]) =
   Inr (Some ''https://cdn.example/a.mp4'', None)"
  by code_simp

lemma w2: "scan_modules (\<lambda>j. []) (JObj [(''youTubeUrl'', JStr ''https://youtu.be/abc123'')]) =
   Inr (None, Some ''https://youtu.be/abc123'')"
  by code_simp

lemma w3: "scan_modules (\<lambda>j. []) (JObj [(''videoUrl'', JStr ''https://cdn.example/b.mp4''),
       (''youtubeUrl'', JStr ''https://www.youtube.com/watch?v=zzz'')]) =
   Inr (Some ''https://cdn.example/b.mp4'', Some ''https://www.youtube.com/watch?v=zzz'')"
  by code_simp


lemma scan_values_merge:
  "list_all2 (\<lambda>v r. scan_modules render v = Inr r) (filter is_container (map snd kvs)) rs \<Longrightarrow>
   scan_values render kvs acc =
     Inr (foldl py_or (fst acc) (map fst rs), foldl py_or (snd acc) (map snd rs))"
proof (induction kvs arbitrary: rs acc)
  case Nil
  then show ?case by simp
next
  case (Cons kv kvs)
  obtain k v where kv: "kv = (k, v)" by (cases kv)
  show ?case
  proof (cases "is_container v")
    case False
    with Cons.prems kv have "list_all2 (\<lambda>v r. scan_modules render v = Inr r)
        (filter is_container (map snd kvs)) rs" by simp
    from Cons.IH [OF this, of acc] False kv show ?thesis by (cases v) simp_all
  next
    case True
    with Cons.prems kv obtain r rs' where rs: "rs = r # rs'"
      and r: "scan_modules render v = Inr r"
      and rest: "list_all2 (\<lambda>v r. scan_modules render v = Inr r)
        (filter is_container (map snd kvs)) rs'"
      by (auto simp: list_all2_Cons1)
    from Cons.IH [OF rest, of "(py_or (fst acc) (fst r), py_or (snd acc) (snd r))"] True kv r rs
    show ?thesis by (cases v) (simp_all add: split_beta)
  qed
qed

lemma scan_bounded_enough:
  "json_depth doc < n \<Longrightarrow> scan_bounded n render doc = Some (scan_modules render doc)"
  "values_depth kvs < n \<Longrightarrow> scan_values_bounded n render kvs acc = Some (scan_values render kvs acc)"
  "items_depth xs < n \<Longrightarrow> scan_items_bounded n render xs acc' = Some (scan_items render xs acc')"
proof (induction render doc and render kvs acc and render xs acc'
    arbitrary: n and n and n rule: scan_modules_scan_values_scan_items.induct)
  case (1 render kvs)
  then show ?case by (cases n) (auto split: sum.splits)
next
  case (2 render xs)
  then show ?case by (cases n) auto
next
  case (3 render s)
  then show ?case by (cases n) auto
next
  case (4 render)
  then show ?case by (cases n) auto
next
  case (5 render b)
  then show ?case by (cases n) auto
next
  case (6 render i)
  then show ?case by (cases n) auto
qed (auto split: sum.splits)


lemma consider_value_str:
  "consider_value (JStr s) acc =
     Inr (if is_video (lower (strip s)) \<and> \<not> truthy (fst acc) then Some (strip s) else fst acc,
          if is_youtube (lower (strip s)) \<and> \<not> truthy (snd acc) then Some (strip s) else snd acc)"
  by (simp add: consider_value_def Let_def)

text \<open>
  Claim C7. In the scan of a content document:
  no step overwrites a value of a kind that is already found, neither \<^verbatim>\<open>consider\<close>, nor a
  hint read from an object, nor the merge of the scan of a nested value or of an array
  item;
  a match is taken when its kind is still missing: \<^verbatim>\<open>consider\<close> takes a video text as the
  direct link and a YouTube text as the YouTube link, the provider hint gives the
  YouTube link, the hint fields are handed to \<^verbatim>\<open>consider\<close>, and the two source lists
  give the direct link;
  the walk does not stop at a find: the scan of an array is, for each kind separately,
  the first truthy result among the scans of its items in order, and the scan of an
  object is the same over what its hints gave followed by the scans of those of its
  values that are objects or arrays, in order, the hints of an object being read in the
  order provider, \<^verbatim>\<open>youTubeUrl\<close>, \<^verbatim>\<open>youtubeUrl\<close>, \<^verbatim>\<open>videoUrl\<close>, \<^verbatim>\<open>video.sources\<close>, \<^verbatim>\<open>sources\<close>;
  the document \<^verbatim>\<open>{"modules":[{"youTubeUrl":"https://youtu.be/abc123"}]}\<close> gives no direct
  video and the YouTube link \<^verbatim>\<open>https://youtu.be/abc123\<close>;
  and the scan ends on every document: its recursion never nests deeper than the
  document does, so a bound above the depth of the document is never reached.
\<close>

theorem scan_first_match_wins:
  "(consider_value v acc = Inr res \<longrightarrow> keeps acc res) \<and>
   keeps acc (hint_provider render obj acc) \<and>
   (hint_youtube_field k obj acc = Inr res \<longrightarrow> keeps acc res) \<and>
   (hint_video_field obj acc = Inr res \<longrightarrow> keeps acc res) \<and>
   (hint_video_sources obj acc = Inr res \<longrightarrow> keeps acc res) \<and>
   (hint_sources obj acc = Inr res \<longrightarrow> keeps acc res) \<and>
   (scan_values render obj acc = Inr res \<longrightarrow> keeps acc res) \<and>
   (scan_items render xs acc = Inr res \<longrightarrow> keeps acc res) \<and>
   consider_value (JStr s) acc =
     Inr (if is_video (lower (strip s)) \<and> \<not> truthy (fst acc) then Some (strip s) else fst acc,
          if is_youtube (lower (strip s)) \<and> \<not> truthy (snd acc) then Some (strip s) else snd acc) \<and>
   (map_of obj ''provider'' = Some (JStr ''youtube'') \<and> map_of obj ''id'' = Some v \<and>
      py_truthy v \<and> \<not> truthy (snd acc) \<longrightarrow>
      hint_provider render obj acc = (fst acc, Some (''https://youtu.be/'' @ py_str render v))) \<and>
   (map_of obj k = Some v \<and> py_truthy v \<and> \<not> truthy (snd acc) \<longrightarrow>
      hint_youtube_field k obj acc = consider_value v acc) \<and>
   (map_of obj ''videoUrl'' = Some v \<and> py_truthy v \<and> \<not> truthy (fst acc) \<longrightarrow>
      hint_video_field obj acc = consider_value v acc) \<and>
   (map_of obj ''video'' = Some (JObj video) \<and>
      pick_from_sources (map_of video ''sources'') = Inr cand \<longrightarrow>
      hint_video_sources obj acc = Inr (py_or (fst acc) cand, snd acc)) \<and>
   (map_of obj ''sources'' = Some v \<and> pick_from_sources (Some v) = Inr cand \<longrightarrow>
      hint_sources obj acc = Inr (py_or (fst acc) cand, snd acc)) \<and>
   (list_all2 (\<lambda>x r. scan_modules render x = Inr r) xs rs \<longrightarrow>
      scan_modules render (JArr xs) =
        Inr (foldl py_or None (map fst rs), foldl py_or None (map snd rs))) \<and>
   (object_hints render obj = Inr h \<and>
      list_all2 (\<lambda>x r. scan_modules render x = Inr r) (filter is_container (map snd obj)) rs' \<longrightarrow>
      scan_modules render (JObj obj) =
        Inr (foldl py_or (fst h) (map fst rs'), foldl py_or (snd h) (map snd rs'))) \<and>
   fetch_trailer_urls render
     (Some (JObj [(''modules'', JArr [JObj [(''youTubeUrl'', JStr ''https://youtu.be/abc123'')]])])) =
     Inr (None, Some ''https://youtu.be/abc123'') \<and>
   (json_depth doc < n \<longrightarrow> scan_bounded n render doc = Some (scan_modules render doc)) \<and>
   (hint_youtube_field ''youTubeUrl'' obj (hint_provider render obj (None, None)) = Inr a1 \<and>
      hint_youtube_field ''youtubeUrl'' obj a1 = Inr a2 \<and>
      hint_video_field obj a2 = Inr a3 \<and>
      hint_video_sources obj a3 = Inr a4 \<and>
      hint_sources obj a4 = Inr a5 \<longrightarrow>
      object_hints render obj = Inr a5)"
proof -
  have never:
    "(consider_value v acc = Inr res \<longrightarrow> keeps acc res) \<and>
     keeps acc (hint_provider render obj acc) \<and>
     (hint_youtube_field k obj acc = Inr res \<longrightarrow> keeps acc res) \<and>
     (hint_video_field obj acc = Inr res \<longrightarrow> keeps acc res) \<and>
     (hint_video_sources obj acc = Inr res \<longrightarrow> keeps acc res) \<and>
     (hint_sources obj acc = Inr res \<longrightarrow> keeps acc res) \<and>
     (scan_values render obj acc = Inr res \<longrightarrow> keeps acc res) \<and>
     (scan_items render xs acc = Inr res \<longrightarrow> keeps acc res)"
    using hint_provider_keeps [of acc render obj]
    by (blast intro: consider_value_keeps hint_youtube_field_keeps hint_video_field_keeps
        hint_video_sources_keeps hint_sources_keeps scan_values_keeps scan_items_keeps)
  have t1: "map_of obj ''provider'' = Some (JStr ''youtube'') \<and> map_of obj ''id'' = Some v \<and>
      py_truthy v \<and> \<not> truthy (snd acc) \<longrightarrow>
      hint_provider render obj acc = (fst acc, Some (''https://youtu.be/'' @ py_str render v))"
    by (simp add: hint_provider_def)
  have t2: "map_of obj k = Some v \<and> py_truthy v \<and> \<not> truthy (snd acc) \<longrightarrow>
      hint_youtube_field k obj acc = consider_value v acc"
    by (simp add: hint_youtube_field_def)
  have t3: "map_of obj ''videoUrl'' = Some v \<and> py_truthy v \<and> \<not> truthy (fst acc) \<longrightarrow>
      hint_video_field obj acc = consider_value v acc"
    by (simp add: hint_video_field_def)
  have t4: "map_of obj ''video'' = Some (JObj video) \<and>
      pick_from_sources (map_of video ''sources'') = Inr cand \<longrightarrow>
      hint_video_sources obj acc = Inr (py_or (fst acc) cand, snd acc)"
    by (simp add: hint_video_sources_def)
  have t5: "map_of obj ''sources'' = Some v \<and> pick_from_sources (Some v) = Inr cand \<longrightarrow>
      hint_sources obj acc = Inr (py_or (fst acc) cand, snd acc)"
    by (simp add: hint_sources_def)
  have arr: "list_all2 (\<lambda>x r. scan_modules render x = Inr r) xs rs \<longrightarrow>
      scan_modules render (JArr xs) =
        Inr (foldl py_or None (map fst rs), foldl py_or None (map snd rs))"
    by (simp add: scan_items_merge)
  have objm: "object_hints render obj = Inr h \<and>
      list_all2 (\<lambda>x r. scan_modules render x = Inr r) (filter is_container (map snd obj)) rs' \<longrightarrow>
      scan_modules render (JObj obj) =
        Inr (foldl py_or (fst h) (map fst rs'), foldl py_or (snd h) (map snd rs'))"
    by (simp add: scan_values_merge)
  have bnd: "json_depth doc < n \<longrightarrow> scan_bounded n render doc = Some (scan_modules render doc)"
    by (simp add: scan_bounded_enough(1))
  have ord: "hint_youtube_field ''youTubeUrl'' obj (hint_provider render obj (None, None)) = Inr a1 \<and>
      hint_youtube_field ''youtubeUrl'' obj a1 = Inr a2 \<and>
      hint_video_field obj a2 = Inr a3 \<and>
      hint_video_sources obj a3 = Inr a4 \<and>
      hint_sources obj a4 = Inr a5 \<longrightarrow>
      object_hints render obj = Inr a5"
    by (simp add: object_hints_def then_step_def)
  from never consider_value_str [of s acc] t1 t2 t3 t4 t5 arr objm scenario [of render] bnd ord
  show ?thesis by (intro conjI) (erule conjE | assumption)+
qed


lemma w4: "scan_modules (\<lambda>j. []) (JObj [(''provider'', JStr ''youtube''), (''id'', JStr ''abc123'')]) =
   Inr (None, Some ''https://youtu.be/abc123'')"
  by code_simp

lemma w5: "scan_modules (\<lambda>j. [])
     (JArr [JObj [(''video'', JObj [(''sources'',
                     JArr [JObj [(''src'', JStr ''https://cdn.example/a.webm'')]])])],
            JObj [(''sources'', JArr [JObj [(''url'', JStr ''https://cdn.example/b.mp4'')]]),
                  (''youtubeUrl'', JStr ''https://www.youtube.com/watch?v=zzz'')]]) =
   Inr (Some ''https://cdn.example/a.webm'', Some ''https://www.youtube.com/watch?v=zzz'')"
  by code_simp

lemma w6: "object_hints (\<lambda>j. [])
     [(''title'', JStr ''Alpha''),
      (''media'', JObj [(''provider'', JStr ''youtube''), (''id'', JStr ''abc123'')]),
      (''gallery'',
       JArr [JObj [(''video'', JObj [(''sources'',
                     JArr [JObj [(''src'', JStr ''https://cdn.example/a.webm'')]])])],
             JObj [(''sources'', JArr [JObj [(''url'', JStr ''https://cdn.example/b.mp4'')]]),
                   (''youtubeUrl'', JStr ''https://www.youtube.com/watch?v=zzz'')]])] =
   Inr (None, None)"
  by code_simp

lemma w8:
  "hint_youtube_field ''youTubeUrl''
     [(''video'', JObj [(''sources'', JArr [JObj [(''src'', JStr ''https://cdn.example/y.mp4'')]])]),
      (''sources'', JArr [JObj [(''url'', JStr ''https://cdn.example/z.mp4'')]]),
      (''youtubeUrl'', JStr ''https://youtu.be/second''),
      (''youTubeUrl'', JStr ''https://youtu.be/first''),
      (''id'', JStr ''abc123''), (''provider'', JStr ''youtube'')]
     (hint_provider (\<lambda>j. [])
       [(''video'', JObj [(''sources'', JArr [JObj [(''src'', JStr ''https://cdn.example/y.mp4'')]])]),
        (''sources'', JArr [JObj [(''url'', JStr ''https://cdn.example/z.mp4'')]]),
        (''youtubeUrl'', JStr ''https://youtu.be/second''),
        (''youTubeUrl'', JStr ''https://youtu.be/first''),
        (''id'', JStr ''abc123''), (''provider'', JStr ''youtube'')]
       (None, None)) = Inr (None, Some ''https://youtu.be/abc123'') \<and>
   hint_youtube_field ''youtubeUrl''
     [(''video'', JObj [(''sources'', JArr [JObj [(''src'', JStr ''https://cdn.example/y.mp4'')]])]),
      (''sources'', JArr [JObj [(''url'', JStr ''https://cdn.example/z.mp4'')]]),
      (''youtubeUrl'', JStr ''https://youtu.be/second''),
      (''youTubeUrl'', JStr ''https://youtu.be/first''),
      (''id'', JStr ''abc123''), (''provider'', JStr ''youtube'')]
     (None, Some ''https://youtu.be/abc123'') = Inr (None, Some ''https://youtu.be/abc123'') \<and>
   hint_video_field
     [(''video'', JObj [(''sources'', JArr [JObj [(''src'', JStr ''https://cdn.example/y.mp4'')]])]),
      (''sources'', JArr [JObj [(''url'', JStr ''https://cdn.example/z.mp4'')]]),
      (''youtubeUrl'', JStr ''https://youtu.be/second''),
      (''youTubeUrl'', JStr ''https://youtu.be/first''),
      (''id'', JStr ''abc123''), (''provider'', JStr ''youtube'')]
     (None, Some ''https://youtu.be/abc123'') = Inr (None, Some ''https://youtu.be/abc123'') \<and>
   hint_video_sources
     [(''video'', JObj [(''sources'', JArr [JObj [(''src'', JStr ''https://cdn.example/y.mp4'')]])]),
      (''sources'', JArr [JObj [(''url'', JStr ''https://cdn.example/z.mp4'')]]),
      (''youtubeUrl'', JStr ''https://youtu.be/second''),
      (''youTubeUrl'', JStr ''https://youtu.be/first''),
      (''id'', JStr ''abc123''), (''provider'', JStr ''youtube'')]
     (None, Some ''https://youtu.be/abc123'') =
     Inr (Some ''https://cdn.example/y.mp4'', Some ''https://youtu.be/abc123'') \<and>
   hint_sources
     [(''video'', JObj [(''sources'', JArr [JObj [(''src'', JStr ''https://cdn.example/y.mp4'')]])]),
      (''sources'', JArr [JObj [(''url'', JStr ''https://cdn.example/z.mp4'')]]),
      (''youtubeUrl'', JStr ''https://youtu.be/second''),
      (''youTubeUrl'', JStr ''https://youtu.be/first''),
      (''id'', JStr ''abc123''), (''provider'', JStr ''youtube'')]
     (Some ''https://cdn.example/y.mp4'', Some ''https://youtu.be/abc123'') =
     Inr (Some ''https://cdn.example/y.mp4'', Some ''https://youtu.be/abc123'')"
  by code_simp

lemma w7: "json_depth
     (JObj [(''title'', JStr ''Alpha''),
      (''media'', JObj [(''provider'', JStr ''youtube''), (''id'', JStr ''abc123'')]),
      (''gallery'',
       JArr [JObj [(''video'', JObj [(''sources'',
                     JArr [JObj [(''src'', JStr ''https://cdn.example/a.webm'')]])])],
             JObj [(''sources'', JArr [JObj [(''url'', JStr ''https://cdn.example/b.mp4'')]]),
                   (''youtubeUrl'', JStr ''https://www.youtube.com/watch?v=zzz'')]])]) < 7"
  by simp

theorem scan_first_match_wins_witness:
  "scan_modules (\<lambda>j. [])
     (JArr [JObj [(''videoUrl'', JStr ''https://cdn.example/a.mp4'')],
            JObj [(''youTubeUrl'', JStr ''https://youtu.be/abc123'')],
            JObj [(''videoUrl'', JStr ''https://cdn.example/b.mp4''),
                  (''youtubeUrl'', JStr ''https://www.youtube.com/watch?v=zzz'')]]) =
     Inr (Some ''https://cdn.example/a.mp4'', Some ''https://youtu.be/abc123'') \<and>
   scan_items (\<lambda>j. [])
     [JObj [(''videoUrl'', JStr ''https://cdn.example/b.mp4''),
            (''youtubeUrl'', JStr ''https://www.youtube.com/watch?v=zzz'')]]
     (Some ''https://cdn.example/a.mp4'', None) =
     Inr (Some ''https://cdn.example/a.mp4'', Some ''https://www.youtube.com/watch?v=zzz'') \<and>
   keeps (Some ''https://cdn.example/a.mp4'', None)
     (Some ''https://cdn.example/a.mp4'', Some ''https://www.youtube.com/watch?v=zzz'') \<and>
   scan_modules (\<lambda>j. [])
     (JObj [(''title'', JStr ''Alpha''),
      (''media'', JObj [(''provider'', JStr ''youtube''), (''id'', JStr ''abc123'')]),
      (''gallery'',
       JArr [JObj [(''video'', JObj [(''sources'',
                     JArr [JObj [(''src'', JStr ''https://cdn.example/a.webm'')]])])],
             JObj [(''sources'', JArr [JObj [(''url'', JStr ''https://cdn.example/b.mp4'')]]),
                   (''youtubeUrl'', JStr ''https://www.youtube.com/watch?v=zzz'')]])]) =
     Inr (Some ''https://cdn.example/a.webm'', Some ''https://youtu.be/abc123'') \<and>
   scan_bounded 7 (\<lambda>j. [])
     (JObj [(''title'', JStr ''Alpha''),
      (''media'', JObj [(''provider'', JStr ''youtube''), (''id'', JStr ''abc123'')]),
      (''gallery'',
       JArr [JObj [(''video'', JObj [(''sources'',
                     JArr [JObj [(''src'', JStr ''https://cdn.example/a.webm'')]])])],
             JObj [(''sources'', JArr [JObj [(''url'', JStr ''https://cdn.example/b.mp4'')]]),
                   (''youtubeUrl'', JStr ''https://www.youtube.com/watch?v=zzz'')]])]) =
     Some (Inr (Some ''https://cdn.example/a.webm'', Some ''https://youtu.be/abc123'')) \<and>
   object_hints (\<lambda>j. [])
     [(''video'', JObj [(''sources'', JArr [JObj [(''src'', JStr ''https://cdn.example/y.mp4'')]])]),
      (''sources'', JArr [JObj [(''url'', JStr ''https://cdn.example/z.mp4'')]]),
      (''youtubeUrl'', JStr ''https://youtu.be/second''),
      (''youTubeUrl'', JStr ''https://youtu.be/first''),
      (''id'', JStr ''abc123''), (''provider'', JStr ''youtube'')] =
     Inr (Some ''https://cdn.example/y.mp4'', Some ''https://youtu.be/abc123'')"
proof -
  let ?o1 = "JObj [(''videoUrl'', JStr ''https://cdn.example/a.mp4'')]"
  let ?o2 = "JObj [(''youTubeUrl'', JStr ''https://youtu.be/abc123'')]"
  let ?o3 = "JObj [(''videoUrl'', JStr ''https://cdn.example/b.mp4''),
                  (''youtubeUrl'', JStr ''https://www.youtube.com/watch?v=zzz'')]"
  let ?rs = "[(Some ''https://cdn.example/a.mp4'', None),
              (None, Some ''https://youtu.be/abc123''),
              (Some ''https://cdn.example/b.mp4'', Some ''https://www.youtube.com/watch?v=zzz'')]"
  let ?media = "JObj [(''provider'', JStr ''youtube''), (''id'', JStr ''abc123'')]"
  let ?gallery = "JArr [JObj [(''video'', JObj [(''sources'',
                     JArr [JObj [(''src'', JStr ''https://cdn.example/a.webm'')]])])],
             JObj [(''sources'', JArr [JObj [(''url'', JStr ''https://cdn.example/b.mp4'')]]),
                   (''youtubeUrl'', JStr ''https://www.youtube.com/watch?v=zzz'')]]"
  let ?obj = "[(''title'', JStr ''Alpha''), (''media'', ?media), (''gallery'', ?gallery)]"
  let ?rs' = "[(None, Some ''https://youtu.be/abc123''),
               (Some ''https://cdn.example/a.webm'', Some ''https://www.youtube.com/watch?v=zzz'')]"
  have h: "list_all2 (\<lambda>x r. scan_modules (\<lambda>j. []) x = Inr r) [?o1, ?o2, ?o3] ?rs"
    using w1 w2 w3 by simp
  have i: "scan_items (\<lambda>j. []) [?o3] (Some ''https://cdn.example/a.mp4'', None) =
     Inr (Some ''https://cdn.example/a.mp4'', Some ''https://www.youtube.com/watch?v=zzz'')"
    using w3 by (simp add: py_or_def truthy_def)
  note c2 = conjunct2
  have kp: "keeps (Some ''https://cdn.example/a.mp4'', None)
     (Some ''https://cdn.example/a.mp4'', Some ''https://www.youtube.com/watch?v=zzz'')"
    using scan_first_match_wins [where render = "\<lambda>j. []" and xs = "[?o3]"
        and acc = "(Some ''https://cdn.example/a.mp4'', None)"
        and res = "(Some ''https://cdn.example/a.mp4'', Some ''https://www.youtube.com/watch?v=zzz'')",
        THEN c2, THEN c2, THEN c2, THEN c2, THEN c2, THEN c2, THEN c2, THEN conjunct1,
        THEN mp, OF i] .
  have "scan_modules (\<lambda>j. []) (JArr [?o1, ?o2, ?o3]) =
        Inr (foldl py_or None (map fst ?rs), foldl py_or None (map snd ?rs))"
    using scan_first_match_wins [where render = "\<lambda>j. []" and xs = "[?o1, ?o2, ?o3]" and rs = ?rs,
        THEN c2, THEN c2, THEN c2, THEN c2, THEN c2, THEN c2, THEN c2, THEN c2, THEN c2, THEN c2,
        THEN c2, THEN c2, THEN c2, THEN c2, THEN conjunct1, THEN mp, OF h] .
  then have a: "scan_modules (\<lambda>j. []) (JArr [?o1, ?o2, ?o3]) =
     Inr (Some ''https://cdn.example/a.mp4'', Some ''https://youtu.be/abc123'')"
    by (simp add: py_or_def truthy_def)
  have h': "object_hints (\<lambda>j. []) ?obj = Inr (None, None) \<and>
      list_all2 (\<lambda>x r. scan_modules (\<lambda>j. []) x = Inr r) (filter is_container (map snd ?obj)) ?rs'"
    using w4 w5 w6 by simp
  have "scan_modules (\<lambda>j. []) (JObj ?obj) =
        Inr (foldl py_or (fst ((None, None) :: found)) (map fst ?rs'),
             foldl py_or (snd ((None, None) :: found)) (map snd ?rs'))"
    using scan_first_match_wins [where render = "\<lambda>j. []" and obj = ?obj and h = "(None, None)"
        and rs' = ?rs',
        THEN c2, THEN c2, THEN c2, THEN c2, THEN c2, THEN c2, THEN c2, THEN c2, THEN c2, THEN c2,
        THEN c2, THEN c2, THEN c2, THEN c2, THEN c2, THEN conjunct1, THEN mp, OF h'] .
  then have b: "scan_modules (\<lambda>j. []) (JObj ?obj) =
     Inr (Some ''https://cdn.example/a.webm'', Some ''https://youtu.be/abc123'')"
    by (simp add: py_or_def truthy_def)
  have "scan_bounded 7 (\<lambda>j. []) (JObj ?obj) = Some (scan_modules (\<lambda>j. []) (JObj ?obj))"
    using scan_first_match_wins [where render = "\<lambda>j. []" and doc = "JObj ?obj" and n = 7,
        THEN c2, THEN c2, THEN c2, THEN c2, THEN c2, THEN c2, THEN c2, THEN c2, THEN c2, THEN c2,
        THEN c2, THEN c2, THEN c2, THEN c2, THEN c2, THEN c2, THEN c2, THEN conjunct1,
        THEN mp, OF w7] .
  with b have c: "scan_bounded 7 (\<lambda>j. []) (JObj ?obj) =
     Some (Inr (Some ''https://cdn.example/a.webm'', Some ''https://youtu.be/abc123''))"
    by simp
  have d: "object_hints (\<lambda>j. [])
     [(''video'', JObj [(''sources'', JArr [JObj [(''src'', JStr ''https://cdn.example/y.mp4'')]])]),
      (''sources'', JArr [JObj [(''url'', JStr ''https://cdn.example/z.mp4'')]]),
      (''youtubeUrl'', JStr ''https://youtu.be/second''),
      (''youTubeUrl'', JStr ''https://youtu.be/first''),
      (''id'', JStr ''abc123''), (''provider'', JStr ''youtube'')] =
     Inr (Some ''https://cdn.example/y.mp4'', Some ''https://youtu.be/abc123'')"
    using scan_first_match_wins [where render = "\<lambda>j. []"
        and obj = "[(''video'', JObj [(''sources'', JArr [JObj [(''src'', JStr ''https://cdn.example/y.mp4'')]])]),
      (''sources'', JArr [JObj [(''url'', JStr ''https://cdn.example/z.mp4'')]]),
      (''youtubeUrl'', JStr ''https://youtu.be/second''),
      (''youTubeUrl'', JStr ''https://youtu.be/first''),
      (''id'', JStr ''abc123''), (''provider'', JStr ''youtube'')]"
        and ?a1.0 = "(None, Some ''https://youtu.be/abc123'')"
        and ?a2.0 = "(None, Some ''https://youtu.be/abc123'')"
        and ?a3.0 = "(None, Some ''https://youtu.be/abc123'')"
        and ?a4.0 = "(Some ''https://cdn.example/y.mp4'', Some ''https://youtu.be/abc123'')"
        and ?a5.0 = "(Some ''https://cdn.example/y.mp4'', Some ''https://youtu.be/abc123'')",
        THEN c2, THEN c2, THEN c2, THEN c2, THEN c2, THEN c2, THEN c2, THEN c2, THEN c2, THEN c2,
        THEN c2, THEN c2, THEN c2, THEN c2, THEN c2, THEN c2, THEN c2, THEN c2, THEN mp, OF w8] .
  from a i kp b c d show ?thesis by (intro conjI)
qed

end
